theory Spec2Isabelle
  imports Complex_Main "HOL-Library.AList" "HOL-Library.Char_ord" "HOL-Library.List_Lexorder"
    "HOL-Library.Multiset"
    "HOL-Library.Product_Lexorder"
begin

section \<open>Data model of the team view (frontend/script.js)\<close>

text \<open>
  A JavaScript string is a sequence of UTF-16 code units. Tags are inspected by
  \<^verbatim>\<open>trim\<close>, so a tag is modelled as the list of its code units. Professor names are only
  compared for equality and tested for emptiness, so they are plain strings.
  \<^verbatim>\<open>str\<close> writes an ASCII literal as a tag.
\<close>

type_synonym tag = "nat list"

definition str :: "string \<Rightarrow> tag" where
  "str s = map of_char s"

text \<open>The code points \<^verbatim>\<open>String.prototype.trim\<close> strips: WhiteSpace and LineTerminator.\<close>

definition js_whitespace :: "nat \<Rightarrow> bool" where
  "js_whitespace c \<longleftrightarrow>
     c = 9 \<or> c = 10 \<or> c = 11 \<or> c = 12 \<or> c = 13 \<or> c = 32 \<or> c = 160 \<or> c = 5760
     \<or> (8192 \<le> c \<and> c \<le> 8202) \<or> c = 8232 \<or> c = 8233 \<or> c = 8239 \<or> c = 8287
     \<or> c = 12288 \<or> c = 65279"

definition trim :: "tag \<Rightarrow> tag" where
  "trim s = rev (dropWhile js_whitespace (rev (dropWhile js_whitespace s)))"

text \<open>The test \<^verbatim>\<open>!tg || tg.trim() === ''\<close> of the dropdown listener.\<close>

definition blank :: "tag \<Rightarrow> bool" where
  "blank tg \<longleftrightarrow> tg = [] \<or> trim tg = []"

text \<open>
  The objects of \<^verbatim>\<open>apiData.team\<close>, of \<^verbatim>\<open>apiData.all_profs_by_tag[tag]\<close> and of
  \<^verbatim>\<open>profMap\<close>. The swap listener creates entries without \<^verbatim>\<open>position\<close> and
  \<^verbatim>\<open>google_scholar_url\<close>, so these two fields are optional.
\<close>

record prof =
  name :: string
  department :: string
  base_url :: string
  position :: "string option"
  google_scholar_url :: "string option"
  tags :: "tag list"

text \<open>
  \<^verbatim>\<open>apiData.all_profs_by_tag\<close> is an object from tag to the professors that possess it,
  modelled as an association list; \<^verbatim>\<open>(all_profs_by_tag && all_profs_by_tag[tag]) || []\<close>
  is \<^verbatim>\<open>profs_by_tag\<close>. Tags are assumed not to be properties of \<^verbatim>\<open>Object.prototype\<close>.
\<close>

type_synonym roster = "(tag \<times> prof list) list"

definition profs_by_tag :: "roster \<Rightarrow> tag \<Rightarrow> prof list" where
  "profs_by_tag api tg = (case map_of api tg of None \<Rightarrow> [] | Some ps \<Rightarrow> ps)"

text \<open>\<^verbatim>\<open>allProfs.some(p => p.name === newProfName)\<close>\<close>

definition possesses :: "roster \<Rightarrow> string \<Rightarrow> tag \<Rightarrow> bool" where
  "possesses api n tg \<longleftrightarrow> list_ex (\<lambda>p. name p = n) (profs_by_tag api tg)"

text \<open>
  The closure variables \<^verbatim>\<open>profOrder\<close> (an array of names) and \<^verbatim>\<open>profMap\<close> (an object
  keyed by name). An object enumerates its string keys in insertion order, assignment to
  an existing key keeps its place and \<^verbatim>\<open>delete\<close> removes it: an association list with
  \<^verbatim>\<open>AList.update\<close> and \<^verbatim>\<open>AList.delete\<close>. Names are assumed not to be array indices,
  which an object enumerates first.
\<close>

record team_state =
  profOrder :: "string list"
  profMap :: "(string \<times> prof) list"

datatype js_error = TypeError

text \<open>
  \<^verbatim>\<open>profMap\<close> and \<^verbatim>\<open>profCount\<close> are created as \<^verbatim>\<open>{}\<close>, so a lookup of a key they do
  not own finds the property of that name of \<^verbatim>\<open>Object.prototype\<close>, a function or (for
  \<^verbatim>\<open>__proto__\<close>) the prototype itself, which is truthy. \<^verbatim>\<open>!obj[n]\<close> is therefore
  \<^verbatim>\<open>absent\<close>, and \<^verbatim>\<open>inherited\<close> says that the lookup finds such a value. On a
  freshly loaded page these values have no \<^verbatim>\<open>tags\<close> property; what a listener writes
  onto one of them is outside the team and is not modelled.
\<close>

definition object_prototype_names :: "string list" where
  "object_prototype_names =
     [''constructor'', ''__defineGetter__'', ''__defineSetter__'', ''hasOwnProperty'',
      ''__lookupGetter__'', ''__lookupSetter__'', ''isPrototypeOf'', ''propertyIsEnumerable'',
      ''toString'', ''valueOf'', ''__proto__'', ''toLocaleString'']"

definition absent :: "(string \<times> 'a) list \<Rightarrow> string \<Rightarrow> bool" where
  "absent obj n \<longleftrightarrow> map_of obj n = None \<and> n \<notin> set object_prototype_names"

definition inherited :: "(string \<times> 'a) list \<Rightarrow> string \<Rightarrow> bool" where
  "inherited obj n \<longleftrightarrow> map_of obj n = None \<and> n \<in> set object_prototype_names"

subsection \<open>Array helpers\<close>

text \<open>\<^verbatim>\<open>arr.indexOf(x)\<close>: the first index of \<^verbatim>\<open>x\<close>, or -1.\<close>

fun indexOf :: "'a list \<Rightarrow> 'a \<Rightarrow> int" where
  "indexOf [] x = - 1"
| "indexOf (y # ys) x =
     (if y = x then 0 else (let i = indexOf ys x in if i < 0 then - 1 else i + 1))"

text \<open>\<^verbatim>\<open>arr.splice(i, 0, x)\<close> for \<^verbatim>\<open>i \<ge> 0\<close>; an index beyond the end appends.\<close>

definition splice_insert :: "nat \<Rightarrow> 'a \<Rightarrow> 'a list \<Rightarrow> 'a list" where
  "splice_insert i x xs = take i xs @ x # drop i xs"

text \<open>\<^verbatim>\<open>arr.filter((n, i, arr) => arr.indexOf(n) === i)\<close>\<close>

definition dedupe :: "'a list \<Rightarrow> 'a list" where
  "dedupe xs = map snd (filter (\<lambda>(i, n). indexOf xs n = int i) (enumerate 0 xs))"

text \<open>\<^verbatim>\<open>Array.from(new Set(xs))\<close>: a set keeps the first insertion of each value.\<close>

definition set_add :: "'a \<Rightarrow> 'a list \<Rightarrow> 'a list" where
  "set_add x acc = (if x \<in> set acc then acc else acc @ [x])"

definition from_set :: "'a list \<Rightarrow> 'a list" where
  "from_set xs = fold set_add xs []"

subsection \<open>Initial team construction (renderResults, lines 233-242)\<close>

text \<open>
  The loop over \<^verbatim>\<open>apiData.team\<close>, in the order the array has when \<^verbatim>\<open>renderResults\<close>
  runs: a name seen for the first time gets an entry and a place at the end of the order,
  a name seen again has its tags appended. For a name that \<^verbatim>\<open>profMap\<close> inherits, line 236
  takes the second branch and \<^verbatim>\<open>.tags.push\<close> throws a TypeError, which ends the loop.
\<close>

definition add_team_prof :: "prof \<Rightarrow> team_state \<Rightarrow> js_error + team_state" where
  "add_team_prof teamProf st =
     (case map_of (profMap st) (name teamProf) of
        None \<Rightarrow>
          if name teamProf \<in> set object_prototype_names then Inl TypeError
          else Inr \<lparr>profOrder = profOrder st @ [name teamProf],
                    profMap = AList.update (name teamProf) teamProf (profMap st)\<rparr>
      | Some p \<Rightarrow>
          Inr (st\<lparr>profMap :=
                 AList.update (name teamProf) (p\<lparr>tags := tags p @ tags teamProf\<rparr>)
                   (profMap st)\<rparr>))"

fun team_loop :: "prof list \<Rightarrow> team_state \<Rightarrow> js_error + team_state" where
  "team_loop [] st = Inr st"
| "team_loop (teamProf # rest) st =
     (case add_team_prof teamProf st of Inl e \<Rightarrow> Inl e | Inr st' \<Rightarrow> team_loop rest st')"

definition init_team :: "prof list \<Rightarrow> js_error + team_state" where
  "init_team team = team_loop team \<lparr>profOrder = [], profMap = []\<rparr>"

subsection \<open>getProfsForTags (lines 244-255)\<close>

text \<open>
  A count is a number, or a string once \<^verbatim>\<open>(profCount[p.name] || 0) + 1\<close> has added 1 to
  an inherited function. Assigning a string to \<^verbatim>\<open>profCount['__proto__']\<close> has no effect.
\<close>

datatype js_count = Num nat | Str

definition count_prof :: "string \<Rightarrow> (string \<times> js_count) list \<Rightarrow> (string \<times> js_count) list" where
  "count_prof n profCount =
     (case map_of profCount n of
        Some (Num c) \<Rightarrow> AList.update n (Num (c + 1)) profCount
      | Some Str \<Rightarrow> AList.update n Str profCount
      | None \<Rightarrow>
          if n = ''__proto__'' then profCount
          else if n \<in> set object_prototype_names then AList.update n Str profCount
          else AList.update n (Num 1) profCount)"

text \<open>
  The comparator \<^verbatim>\<open>b[1] - a[1]\<close> is NaN on a string, which a sort takes as equal. The
  callers only look an entry up by its name, which does not depend on the order.
\<close>

definition count_key :: "string \<times> js_count \<Rightarrow> int" where
  "count_key e = (case snd e of Num c \<Rightarrow> - int c | Str \<Rightarrow> 0)"

definition getProfsForTags :: "roster \<Rightarrow> tag list \<Rightarrow> (string \<times> js_count) list" where
  "getProfsForTags api tgs =
     sort_key count_key
       (fold (\<lambda>tg profCount. fold (\<lambda>p. count_prof (name p)) (profs_by_tag api tg) profCount)
          tgs [])"

subsection \<open>The dropdown listener (attachDropdownListeners, lines 377-441)\<close>

text \<open>Lines 385-397: which of the source's tags are moved.\<close>

definition newProfCommonCount :: "roster \<Rightarrow> tag list \<Rightarrow> string \<Rightarrow> js_count" where
  "newProfCommonCount api tagsOfOldProf newProfName =
     (case find (\<lambda>p. fst p = newProfName) (getProfsForTags api tagsOfOldProf) of
        None \<Rightarrow> Num 1
      | Some p \<Rightarrow> (case snd p of Num c \<Rightarrow> (if c = 0 then Num 1 else Num c) | Str \<Rightarrow> Str))"

text \<open>\<^verbatim>\<open>count >= 1\<close>: a string that is not a numeral compares as NaN, which is false.\<close>

definition count_ge_one :: "js_count \<Rightarrow> bool" where
  "count_ge_one c = (case c of Num k \<Rightarrow> 1 \<le> k | Str \<Rightarrow> False)"

definition tagsToMove :: "roster \<Rightarrow> tag list \<Rightarrow> string \<Rightarrow> tag list" where
  "tagsToMove api tagsOfOldProf newProfName =
     (if count_ge_one (newProfCommonCount api tagsOfOldProf newProfName)
         \<and> length tagsOfOldProf > 1
      then filter (\<lambda>tg. \<not> blank tg \<and> possesses api newProfName tg) tagsOfOldProf
      else tagsOfOldProf)"

text \<open>Lines 405-424: the entry created for a destination that is new to the team.\<close>

fun newProfEntry :: "roster \<Rightarrow> tag list \<Rightarrow> string \<Rightarrow> prof" where
  "newProfEntry api [] newProfName =
     \<lparr>name = newProfName, department = '''', base_url = '''', position = Some '''',
      google_scholar_url = Some '''', tags = []\<rparr>"
| "newProfEntry api (tg # tgs) newProfName =
     (if blank tg then newProfEntry api tgs newProfName
      else case find (\<lambda>p. name p = newProfName) (profs_by_tag api tg) of
        None \<Rightarrow> newProfEntry api tgs newProfName
      | Some found \<Rightarrow>
          \<lparr>name = newProfName, department = department found, base_url = base_url found,
           position = Some (case position found of None \<Rightarrow> '''' | Some s \<Rightarrow> s),
           google_scholar_url =
             Some (case google_scholar_url found of None \<Rightarrow> '''' | Some s \<Rightarrow> s),
           tags = []\<rparr>)"

text \<open>
  The listener reads the source's name and its tags from the attributes of the select
  element (\<^verbatim>\<open>data-current-prof\<close>, \<^verbatim>\<open>data-tags\<close>) and the destination from its value;
  \<^verbatim>\<open>renderTeamCards\<close> writes the member's current tags into \<^verbatim>\<open>data-tags\<close> and offers
  as destinations the other professors listed under one of these tags. The attribute
  \<^verbatim>\<open>data-tag\<close> is read and not used. Reading \<^verbatim>\<open>profMap[x].tags.filter\<close> for an
  \<^verbatim>\<open>x\<close> that is not a member throws a TypeError; at line 400 this happens before
  anything is changed. When the destination is an inherited name, line 403 creates no
  entry and no place in the order, and line 431 writes the tags onto the inherited
  value: \<^verbatim>\<open>pm3\<close> is then \<^verbatim>\<open>pm2\<close>.
\<close>

definition dropdownListener ::
  "roster \<Rightarrow> team_state \<Rightarrow> string \<Rightarrow> tag list \<Rightarrow> string \<Rightarrow> js_error + team_state" where
  "dropdownListener api st oldProfName tagsOfOldProf newProfName =
     (if newProfName = [] then Inr st
      else
        let moved = tagsToMove api tagsOfOldProf newProfName in
        case map_of (profMap st) oldProfName of
          None \<Rightarrow> Inl TypeError
        | Some oldP \<Rightarrow>
            let pm1 = AList.update oldProfName
                        (oldP\<lparr>tags := filter (\<lambda>tg. tg \<notin> set moved) (tags oldP)\<rparr>) (profMap st);
                isNew = absent pm1 newProfName;
                pm2 = (if isNew
                       then AList.update newProfName (newProfEntry api moved newProfName) pm1
                       else pm1);
                po2 = (if isNew
                       then splice_insert (nat (indexOf (profOrder st) oldProfName + 1))
                              newProfName (profOrder st)
                       else profOrder st);
                filteredTagsToMove = filter (\<lambda>tg. \<not> blank tg) moved;
                pm3 = (case map_of pm2 newProfName of
                         None \<Rightarrow> pm2
                       | Some newP \<Rightarrow>
                           AList.update newProfName
                             (newP\<lparr>tags := from_set (tags newP @ filteredTagsToMove)\<rparr>) pm2)
            in
            (case map_of pm3 oldProfName of
               None \<Rightarrow> Inl TypeError
             | Some oldP' \<Rightarrow>
                 if tags oldP' = []
                 then Inr \<lparr>profOrder = dedupe (filter (\<lambda>n. n \<noteq> oldProfName) po2),
                           profMap = AList.delete oldProfName pm3\<rparr>
                 else Inr \<lparr>profOrder = dedupe po2, profMap = pm3\<rparr>))"

subsection \<open>The swap listener of the tag table (renderTeamCards, lines 336-368)\<close>

text \<open>
  Lines 353-356: the entry created for a destination that is new to the team. As in the
  dropdown listener, an inherited name gets no entry, and line 360 writes the tag onto
  the inherited value.
\<close>

definition swapProfEntry :: "roster \<Rightarrow> tag \<Rightarrow> string \<Rightarrow> prof" where
  "swapProfEntry api tg profName =
     (case find (\<lambda>p. name p = profName) (profs_by_tag api tg) of
        None \<Rightarrow>
          \<lparr>name = profName, department = '''', base_url = '''', position = None,
           google_scholar_url = None, tags = []\<rparr>
      | Some found \<Rightarrow>
          \<lparr>name = profName, department = department found, base_url = base_url found,
           position = None, google_scholar_url = None, tags = []\<rparr>)"

definition swapListener ::
  "roster \<Rightarrow> team_state \<Rightarrow> string \<Rightarrow> tag \<Rightarrow> js_error + team_state" where
  "swapListener api st profName tg =
     (case find (\<lambda>e. tg \<in> set (tags (snd e))) (profMap st) of
        None \<Rightarrow> Inr st
      | Some (oldProfName, cardToSwap) \<Rightarrow>
          if profName = oldProfName then Inr st
          else
            let pm1 = AList.update oldProfName
                        (cardToSwap\<lparr>tags := filter (\<lambda>t. t \<noteq> tg) (tags cardToSwap)\<rparr>)
                        (profMap st);
                isNew = absent pm1 profName;
                pm2 = (if isNew then AList.update profName (swapProfEntry api tg profName) pm1
                       else pm1);
                po2 = (if isNew
                       then splice_insert (nat (indexOf (profOrder st) oldProfName + 1))
                              profName (profOrder st)
                       else profOrder st);
                pm3 = (case map_of pm2 profName of
                         None \<Rightarrow> pm2
                       | Some newP \<Rightarrow>
                           AList.update profName (newP\<lparr>tags := tags newP @ [tg]\<rparr>) pm2)
            in
            (case map_of pm3 oldProfName of
               None \<Rightarrow> Inl TypeError
             | Some oldP' \<Rightarrow>
                 if tags oldP' = []
                 then Inr \<lparr>profOrder = dedupe (filter (\<lambda>n. n \<noteq> oldProfName) po2),
                           profMap = AList.delete oldProfName pm3\<rparr>
                 else Inr \<lparr>profOrder = dedupe po2, profMap = pm3\<rparr>))"

subsection \<open>The options of a dropdown (renderTeamCards, lines 268-290)\<close>

text \<open>
  The select element of a member with at least one tag offers, after an option with the
  empty value, every other professor listed under one of the member's tags.
\<close>

definition profsForDropdown :: "roster \<Rightarrow> prof \<Rightarrow> (string \<times> js_count) list" where
  "profsForDropdown api teamProf =
     fold (\<lambda>tg profCount.
             fold (\<lambda>p pc. if name p \<noteq> name teamProf then count_prof (name p) pc else pc)
               (profs_by_tag api tg) profCount)
       (tags teamProf) []"

definition dropdownOptions :: "roster \<Rightarrow> team_state \<Rightarrow> string \<Rightarrow> string list" where
  "dropdownOptions api st profName =
     (case map_of (profMap st) profName of
        None \<Rightarrow> []
      | Some teamProf \<Rightarrow>
          if tags teamProf = [] then []
          else map fst (sort_key count_key (profsForDropdown api teamProf)))"

subsection \<open>Individual mode (renderIndividualResults, lines 460-516)\<close>

text \<open>
  The individual tab shows \<^verbatim>\<open>currentApiData.individual\<close> as received: one card per
  professor, in array order, numbered \<^verbatim>\<open>index + 1\<close>. Nothing in the frontend sorts this
  list (\<^verbatim>\<open>sortResults\<close> is applied to the team list only). Of a professor only the
  name and the rank score are modelled.
\<close>

record individual =
  ind_name :: string
  rank_score :: real

definition renderIndividualResults :: "individual list \<Rightarrow> (nat \<times> individual) list" where
  "renderIndividualResults professors =
     (if professors = [] then [] else map (\<lambda>(i, p). (i + 1, p)) (enumerate 0 professors))"

text \<open>
  Modelled from the spec: the ranking service of the backend
  (\<^verbatim>\<open>backend/src/services/problem_service.py\<close>) that produces the \<^verbatim>\<open>individual\<close> list is
  not among the sources. The specification says: individual-mode results are the full
  expert roster sorted descending by rank, ties broken by expert identifier
  (lexicographic).
\<close>

definition individual_results :: "individual list \<Rightarrow> individual list" where
  "individual_results roster = sort_key (\<lambda>e. (- rank_score e, ind_name e)) roster"

definition ranked_before :: "individual \<Rightarrow> individual \<Rightarrow> bool" where
  "ranked_before a b \<longleftrightarrow>
     rank_score a > rank_score b \<or> (rank_score a = rank_score b \<and> ind_name a \<le> ind_name b)"

section \<open>Invariants of the team state\<close>

text \<open>
  The keys of an object are distinct by construction; \<^verbatim>\<open>profOrder\<close> lists exactly the
  keys of \<^verbatim>\<open>profMap\<close>, each once.
\<close>

definition well_formed :: "team_state \<Rightarrow> bool" where
  "well_formed st \<longleftrightarrow>
     distinct (map fst (profMap st)) \<and> distinct (profOrder st)
     \<and> set (profOrder st) = set (map fst (profMap st))"

text \<open>The tags assigned to a name; none for a name that is not on the team.\<close>

definition assigned :: "team_state \<Rightarrow> string \<Rightarrow> tag list" where
  "assigned st n = (case map_of (profMap st) n of None \<Rightarrow> [] | Some p \<Rightarrow> tags p)"

definition members_nonempty :: "team_state \<Rightarrow> bool" where
  "members_nonempty st \<longleftrightarrow> list_all (\<lambda>e. tags (snd e) \<noteq> []) (profMap st)"

text \<open>No tag appears under two different team members.\<close>

definition tags_disjoint :: "team_state \<Rightarrow> bool" where
  "tags_disjoint st \<longleftrightarrow>
     list_all (\<lambda>e. list_all (\<lambda>f. fst e = fst f \<or> set (tags (snd e)) \<inter> set (tags (snd f)) = {})
                 (profMap st)) (profMap st)"

text \<open>The same for the team list the API delivers.\<close>

definition team_disjoint :: "prof list \<Rightarrow> bool" where
  "team_disjoint team \<longleftrightarrow>
     list_all (\<lambda>p. list_all (\<lambda>q. name p = name q \<or> set (tags p) \<inter> set (tags q) = {}) team) team"

text \<open>
  The members present both before and after a transition keep their relative order.
\<close>

definition order_stable :: "string list \<Rightarrow> string list \<Rightarrow> bool" where
  "order_stable before after \<longleftrightarrow>
     filter (\<lambda>n. n \<in> set before) after = filter (\<lambda>n. n \<in> set after) before"

text \<open>
  Both listeners end in the same way once the new entries of the source and of the
  destination are known; \<^verbatim>\<open>relocate\<close> is that common tail, used in the proofs.
\<close>

definition relocate :: "team_state \<Rightarrow> string \<Rightarrow> prof \<Rightarrow> string \<Rightarrow> prof \<Rightarrow> team_state" where
  "relocate st old oldP1 new newP3 =
     (let pm3 = AList.update new newP3 (AList.update old oldP1 (profMap st));
          po2 = (if map_of (profMap st) new = None
                 then splice_insert (nat (indexOf (profOrder st) old + 1)) new (profOrder st)
                 else profOrder st)
      in if tags oldP1 = []
         then \<lparr>profOrder = dedupe (filter (\<lambda>n. n \<noteq> old) po2), profMap = AList.delete old pm3\<rparr>
         else \<lparr>profOrder = dedupe po2, profMap = pm3\<rparr>)"

definition dest_entry :: "team_state \<Rightarrow> string \<Rightarrow> prof \<Rightarrow> prof" where
  "dest_entry st new fresh = (case map_of (profMap st) new of None \<Rightarrow> fresh | Some q \<Rightarrow> q)"

section \<open>Example data\<close>

text \<open>A professor object as the API delivers it, with fixed display fields.\<close>

definition mk_prof :: "string \<Rightarrow> tag list \<Rightarrow> prof" where
  "mk_prof n tgs =
     \<lparr>name = n, department = ''CS'', base_url = ''http://x'', position = Some ''Professor'',
      google_scholar_url = Some '''', tags = tgs\<rparr>"

definition tagA :: tag where "tagA = str ''ai''"
definition tagB :: tag where "tagB = str ''bio''"
definition tagC :: tag where "tagC = str ''chem''"

text \<open>P1 and P2 possess \<^verbatim>\<open>ai\<close>, only P1 possesses \<^verbatim>\<open>bio\<close>, only P3 possesses \<^verbatim>\<open>chem\<close>.\<close>

definition api1 :: roster where
  "api1 = [(tagA, [mk_prof ''P1'' [], mk_prof ''P2'' []]), (tagB, [mk_prof ''P1'' []]),
           (tagC, [mk_prof ''P3'' []])]"

definition team1 :: "prof list" where
  "team1 = [mk_prof ''P1'' [tagA, tagB], mk_prof ''P3'' [tagC]]"

definition st1 :: team_state where
  "st1 = \<lparr>profOrder = [''P1'', ''P3''],
          profMap = [(''P1'', mk_prof ''P1'' [tagA, tagB]), (''P3'', mk_prof ''P3'' [tagC])]\<rparr>"

text \<open>
  A roster in which the empty string is a key: P1 and P2 both possess the empty tag and
  \<^verbatim>\<open>ai\<close>; P1 holds both.
\<close>

definition api2 :: roster where
  "api2 = [([], [mk_prof ''P1'' [], mk_prof ''P2'' []]),
           (tagA, [mk_prof ''P1'' [], mk_prof ''P2'' []])]"

definition st2 :: team_state where
  "st2 = \<lparr>profOrder = [''P1''], profMap = [(''P1'', mk_prof ''P1'' [[], tagA])]\<rparr>"

text \<open>P1 holds only the empty tag.\<close>

definition st3 :: team_state where
  "st3 = \<lparr>profOrder = [''P1''], profMap = [(''P1'', mk_prof ''P1'' [[]])]\<rparr>"

text \<open>A roster whose only tag is a single space, possessed by P1 and P2 and held by P1.\<close>

definition api4 :: roster where
  "api4 = [(str '' '', [mk_prof ''P1'' [], mk_prof ''P2'' []])]"

definition st4 :: team_state where
  "st4 = \<lparr>profOrder = [''P1''], profMap = [(''P1'', mk_prof ''P1'' [str '' ''])]\<rparr>"

text \<open>In \<^verbatim>\<open>api5\<close> P2 possesses the empty tag only; P1 holds it together with \<^verbatim>\<open>ai\<close>.\<close>

definition api5 :: roster where
  "api5 = [([], [mk_prof ''P1'' [], mk_prof ''P2'' []]), (tagA, [mk_prof ''P1'' []])]"

text \<open>P1 holds the single tag \<^verbatim>\<open>ai\<close>.\<close>

definition st6 :: team_state where
  "st6 = \<lparr>profOrder = [''P1''], profMap = [(''P1'', mk_prof ''P1'' [tagA])]\<rparr>"

text \<open>In a table of counts only inherited names carry a string.\<close>

definition counts_ok :: "(string \<times> js_count) list \<Rightarrow> bool" where
  "counts_ok pc \<longleftrightarrow> list_all (\<lambda>e. snd e \<noteq> Str \<or> fst e \<in> set object_prototype_names) pc"

text \<open>
  What both listeners do to the team when the destination is an inherited name: the
  source gets its new entry, or leaves when no tag is left to it.
\<close>

definition withdraw :: "team_state \<Rightarrow> string \<Rightarrow> prof \<Rightarrow> team_state" where
  "withdraw st old oldP1 =
     (if tags oldP1 = []
      then \<lparr>profOrder = dedupe (filter (\<lambda>n. n \<noteq> old) (profOrder st)),
            profMap = AList.delete old (profMap st)\<rparr>
      else \<lparr>profOrder = dedupe (profOrder st), profMap = AList.update old oldP1 (profMap st)\<rparr>)"

text \<open>
  P2 already holds \<^verbatim>\<open>ai\<close>, which P1 holds too (the API's team list named it under both);
  P2 possesses \<^verbatim>\<open>ai\<close> and \<^verbatim>\<open>chem\<close>, P1 possesses \<^verbatim>\<open>ai\<close> and \<^verbatim>\<open>bio\<close>.
\<close>

definition api7 :: roster where
  "api7 = [(tagA, [mk_prof ''P1'' [], mk_prof ''P2'' []]), (tagB, [mk_prof ''P1'' []]),
           (tagC, [mk_prof ''P2'' []])]"

definition st7 :: team_state where
  "st7 = \<lparr>profOrder = [''P1'', ''P2''],
          profMap = [(''P1'', mk_prof ''P1'' [tagA, tagB]), (''P2'', mk_prof ''P2'' [tagC, tagA])]\<rparr>"

text \<open>
  A roster that lists a professor named \<^verbatim>\<open>constructor\<close> under \<^verbatim>\<open>ai\<close>; P1 holds
  \<^verbatim>\<open>ai\<close> and \<^verbatim>\<open>bio\<close>.
\<close>

definition api8 :: roster where
  "api8 = [(tagA, [mk_prof ''P1'' [], mk_prof ''constructor'' []]), (tagB, [mk_prof ''P1'' []])]"

definition st8 :: team_state where
  "st8 = \<lparr>profOrder = [''P1''], profMap = [(''P1'', mk_prof ''P1'' [tagA, tagB])]\<rparr>"

section \<open>Sequences of transitions\<close>

text \<open>
  The two events that change the team: a click on the swap icon of a professor in a row
  of the tag table (\<^verbatim>\<open>data-prof-name\<close>, \<^verbatim>\<open>data-tag\<close>), and a change of the select of a
  member's card (\<^verbatim>\<open>data-current-prof\<close>, \<^verbatim>\<open>data-tags\<close>, the chosen value).
\<close>

datatype transition = Swap string tag | Select string "tag list" string

fun apply_transition :: "roster \<Rightarrow> transition \<Rightarrow> team_state \<Rightarrow> js_error + team_state" where
  "apply_transition api (Swap profName tg) st = swapListener api st profName tg"
| "apply_transition api (Select oldProfName tagsOfOldProf newProfName) st =
     dropdownListener api st oldProfName tagsOfOldProf newProfName"

text \<open>The events of a list handled one after the other, up to the first exception.\<close>

fun run :: "roster \<Rightarrow> transition list \<Rightarrow> team_state \<Rightarrow> js_error + team_state" where
  "run api [] st = Inr st"
| "run api (t # ts) st =
     (case apply_transition api t st of Inl e \<Rightarrow> Inl e | Inr s \<Rightarrow> run api ts s)"

text \<open>P1 and P2 possess \<^verbatim>\<open>ai\<close> and \<^verbatim>\<open>bio\<close>, only P3 possesses \<^verbatim>\<open>chem\<close>.\<close>

definition api9 :: roster where
  "api9 = [(tagA, [mk_prof ''P1'' [], mk_prof ''P2'' []]),
           (tagB, [mk_prof ''P1'' [], mk_prof ''P2'' []]), (tagC, [mk_prof ''P3'' []])]"

text \<open>Both names are in the list and the first stands before the second.\<close>

definition comes_before :: "string \<Rightarrow> string \<Rightarrow> string list \<Rightarrow> bool" where
  "comes_before a b po \<longleftrightarrow> a \<in> set po \<and> b \<in> set po \<and> indexOf po a < indexOf po b"

text \<open>
  The name is a member before the first event, between the events and after the last,
  and no event raises an exception.
\<close>

fun stays :: "string \<Rightarrow> roster \<Rightarrow> transition list \<Rightarrow> team_state \<Rightarrow> bool" where
  "stays a api [] st = (a \<in> set (profOrder st))"
| "stays a api (t # ts) st =
     (a \<in> set (profOrder st)
      \<and> (case apply_transition api t st of Inl e \<Rightarrow> False | Inr s \<Rightarrow> stays a api ts s))"

section \<open>Properties of the helpers\<close>

lemma indexOf_notin: "x \<notin> set xs \<Longrightarrow> indexOf xs x = - 1"
  by (induction xs) (auto simp: Let_def)

lemma indexOf_in: "x \<in> set xs \<Longrightarrow> 0 \<le> indexOf xs x \<and> nat (indexOf xs x) < length xs
    \<and> xs ! nat (indexOf xs x) = x \<and> x \<notin> set (take (nat (indexOf xs x)) xs)"
proof (induction xs)
  case Nil
  then show ?case by simp
next
  case (Cons y ys)
  show ?case
  proof (cases "y = x")
    case True
    then show ?thesis by simp
  next
    case False
    with Cons have ih: "0 \<le> indexOf ys x" "nat (indexOf ys x) < length ys"
      "ys ! nat (indexOf ys x) = x" "x \<notin> set (take (nat (indexOf ys x)) ys)" by auto
    have n: "nat (indexOf ys x + 1) = Suc (nat (indexOf ys x))" using ih(1) by simp
    show ?thesis using False ih by (simp add: Let_def n)
  qed
qed

lemma indexOf_first:
  "i < length xs \<Longrightarrow> xs ! i = x \<Longrightarrow> x \<notin> set (take i xs) \<Longrightarrow> indexOf xs x = int i"
proof (induction xs arbitrary: i)
  case Nil
  then show ?case by simp
next
  case (Cons y ys)
  show ?case
  proof (cases i)
    case 0
    with Cons.prems show ?thesis by simp
  next
    case (Suc j)
    with Cons.prems have "y \<noteq> x" "j < length ys" "ys ! j = x" "x \<notin> set (take j ys)" by auto
    with Cons.IH[of j] Suc show ?thesis by (simp add: Let_def)
  qed
qed

lemma indexOf_distinct: "distinct xs \<Longrightarrow> i < length xs \<Longrightarrow> indexOf xs (xs ! i) = int i"
  by (rule indexOf_first) (auto simp: distinct_conv_nth in_set_conv_nth)

lemma indexOf_append_pos: "distinct (xs @ x # ys) \<Longrightarrow> nat (indexOf (xs @ x # ys) x + 1) = Suc (length xs)"
  using indexOf_first[of "length xs" "xs @ x # ys" x] by simp

lemma dedupe_distinct_id: "distinct xs \<Longrightarrow> dedupe xs = xs"
proof -
  assume d: "distinct xs"
  have "filter (\<lambda>(i, n). indexOf xs n = int i) (enumerate 0 xs) = enumerate 0 xs"
    by (rule filter_True) (auto simp: in_set_enumerate_eq indexOf_distinct[OF d])
  then show ?thesis by (simp add: dedupe_def)
qed

lemma set_dedupe: "set (dedupe xs) = set xs"
proof
  show "set (dedupe xs) \<subseteq> set xs"
    by (auto simp: dedupe_def in_set_enumerate_eq)
  show "set xs \<subseteq> set (dedupe xs)"
  proof
    fix x assume "x \<in> set xs"
    from indexOf_in[OF this]
    have "(nat (indexOf xs x), x) \<in> set (enumerate 0 xs)" "indexOf xs x = int (nat (indexOf xs x))"
      by (auto simp: in_set_enumerate_eq)
    then show "x \<in> set (dedupe xs)"
      unfolding dedupe_def by force
  qed
qed



lemma set_fold_set_add: "set (fold set_add xs acc) = set acc \<union> set xs"
  by (induction xs arbitrary: acc) (auto simp: set_add_def)

lemma distinct_fold_set_add: "distinct acc \<Longrightarrow> distinct (fold set_add xs acc)"
  by (induction xs arbitrary: acc) (auto simp: set_add_def)



lemma set_from_set: "set (from_set xs) = set xs"
  by (simp add: from_set_def set_fold_set_add)

lemma distinct_from_set: "distinct (from_set xs)"
  by (simp add: from_set_def distinct_fold_set_add)



lemma find_Some_set: "find P xs = Some x \<Longrightarrow> x \<in> set xs \<and> P x"
  by (induction xs) (auto split: if_splits)

lemma set_update_subset: "set (AList.update n v pc) \<subseteq> insert (n, v) (set pc)"
  by (induction pc) auto

lemma counts_ok_update:
  "counts_ok pc \<Longrightarrow> v \<noteq> Str \<or> n \<in> set object_prototype_names \<Longrightarrow>
     counts_ok (AList.update n v pc)"
  using set_update_subset[of n v pc] unfolding counts_ok_def list_all_iff by fastforce

lemma count_prof_ok:
  assumes "counts_ok pc"
  shows "counts_ok (count_prof n pc)"
proof (cases "map_of pc n")
  case None
  then show ?thesis using assms by (simp add: count_prof_def counts_ok_update)
next
  case (Some c)
  show ?thesis
  proof (cases c)
    case (Num k)
    with Some assms show ?thesis by (simp add: count_prof_def counts_ok_update)
  next
    case Str
    with Some have "(n, Str) \<in> set pc" by (simp add: map_of_SomeD)
    with assms have "n \<in> set object_prototype_names"
      unfolding counts_ok_def list_all_iff by fastforce
    with Some Str assms show ?thesis by (simp add: count_prof_def counts_ok_update)
  qed
qed

lemma fold_count_prof_ok:
  "counts_ok pc \<Longrightarrow> counts_ok (fold (\<lambda>p. count_prof (name p)) ps pc)"
proof (induction ps arbitrary: pc)
  case Nil
  then show ?case by simp
next
  case (Cons p ps)
  from Cons.prems have "counts_ok (count_prof (name p) pc)" by (rule count_prof_ok)
  then show ?case using Cons.IH by simp
qed

lemma fold_tags_count_ok:
  "counts_ok pc \<Longrightarrow>
     counts_ok (fold (\<lambda>tg profCount.
        fold (\<lambda>p. count_prof (name p)) (profs_by_tag api tg) profCount) T pc)"
proof (induction T arbitrary: pc)
  case Nil
  then show ?case by simp
next
  case (Cons tg T)
  from Cons.prems
  have "counts_ok (fold (\<lambda>p. count_prof (name p)) (profs_by_tag api tg) pc)"
    by (rule fold_count_prof_ok)
  then show ?case using Cons.IH by simp
qed

lemma getProfsForTags_Str:
  "\<forall>e\<in>set (getProfsForTags api T). snd e = Str \<longrightarrow> fst e \<in> set object_prototype_names"
proof -
  have "counts_ok []" by (simp add: counts_ok_def)
  from fold_tags_count_ok[OF this, of api T] show ?thesis
    unfolding counts_ok_def list_all_iff getProfsForTags_def by auto
qed

lemma count_ge_one_plain:
  assumes "n \<notin> set object_prototype_names"
  shows "count_ge_one (newProfCommonCount api T n)"
proof (cases "find (\<lambda>p. fst p = n) (getProfsForTags api T)")
  case None
  then show ?thesis by (simp add: newProfCommonCount_def count_ge_one_def)
next
  case (Some e)
  from find_Some_set[OF Some] getProfsForTags_Str[of api T] assms have "snd e \<noteq> Str" by auto
  with Some show ?thesis
    by (cases "snd e") (auto simp: newProfCommonCount_def count_ge_one_def)
qed

lemma tagsToMove_eq:
  "n \<notin> set object_prototype_names \<Longrightarrow> tagsToMove api T n =
     (if length T > 1 then filter (\<lambda>tg. \<not> blank tg \<and> possesses api n tg) T else T)"
  by (simp add: tagsToMove_def count_ge_one_plain)

lemma set_tagsToMove: "set (tagsToMove api T n) \<subseteq> set T"
  by (auto simp: tagsToMove_def)

lemma tagsToMove_single: "length T \<le> 1 \<Longrightarrow> tagsToMove api T n = T"
  by (simp add: tagsToMove_def)

section \<open>The listeners in terms of relocate and withdraw\<close>

lemma dropdown_relocate:
  assumes "new \<noteq> []" "map_of (profMap st) old = Some oldP" "old \<noteq> new"
    "\<not> inherited (profMap st) new"
  shows "dropdownListener api st old T new =
     Inr (relocate st old
            (oldP\<lparr>tags := filter (\<lambda>tg. tg \<notin> set (tagsToMove api T new)) (tags oldP)\<rparr>)
            new
            (let newP = dest_entry st new (newProfEntry api (tagsToMove api T new) new)
             in newP\<lparr>tags := from_set (tags newP @ filter (\<lambda>tg. \<not> blank tg) (tagsToMove api T new))\<rparr>))"
  using assms
  by (auto simp: dropdownListener_def relocate_def dest_entry_def Let_def AList.update_conv'
      absent_def inherited_def split: option.splits)

lemma dropdown_withdraw:
  assumes "new \<noteq> []" "map_of (profMap st) old = Some oldP" "inherited (profMap st) new"
  shows "dropdownListener api st old T new =
     Inr (withdraw st old
            (oldP\<lparr>tags := filter (\<lambda>tg. tg \<notin> set (tagsToMove api T new)) (tags oldP)\<rparr>))"
proof -
  have "old \<noteq> new" using assms(2,3) by (auto simp: inherited_def)
  then show ?thesis
    using assms
    by (auto simp: dropdownListener_def withdraw_def Let_def AList.update_conv'
        AList.delete_update_same absent_def inherited_def)
qed

lemma find_holder_Some:
  assumes "find (\<lambda>e. tg \<in> set (tags (snd e))) pm = Some (old, crd)" "distinct (map fst pm)"
  shows "map_of pm old = Some crd \<and> tg \<in> set (tags crd)"
  using find_Some_set[OF assms(1)] assms(2) by simp

lemma swap_relocate:
  assumes "find (\<lambda>e. tg \<in> set (tags (snd e))) (profMap st) = Some (old, crd)" "old \<noteq> new"
    "\<not> inherited (profMap st) new"
  shows "swapListener api st new tg =
     Inr (relocate st old (crd\<lparr>tags := filter (\<lambda>t. t \<noteq> tg) (tags crd)\<rparr>) new
            (let newP = dest_entry st new (swapProfEntry api tg new)
             in newP\<lparr>tags := tags newP @ [tg]\<rparr>))"
  using assms
  by (auto simp: swapListener_def relocate_def dest_entry_def Let_def AList.update_conv'
      absent_def inherited_def split: option.splits)

lemma swap_withdraw:
  assumes "find (\<lambda>e. tg \<in> set (tags (snd e))) (profMap st) = Some (old, crd)"
    "inherited (profMap st) new"
  shows "swapListener api st new tg =
     Inr (withdraw st old (crd\<lparr>tags := filter (\<lambda>t. t \<noteq> tg) (tags crd)\<rparr>))"
proof -
  have "(old, crd) \<in> set (profMap st)" using find_Some_set[OF assms(1)] by simp
  then have "map_of (profMap st) old \<noteq> None"
    by (metis map_of_eq_None_iff fst_conv image_eqI)
  then have "old \<noteq> new" using assms(2) by (auto simp: inherited_def)
  then show ?thesis
    using assms
    by (auto simp: swapListener_def withdraw_def Let_def AList.update_conv'
        AList.delete_update_same absent_def inherited_def)
qed

lemma swap_noop:
  "find (\<lambda>e. tg \<in> set (tags (snd e))) (profMap st) = None \<Longrightarrow> swapListener api st new tg = Inr st"
  "find (\<lambda>e. tg \<in> set (tags (snd e))) (profMap st) = Some (new, crd) \<Longrightarrow> swapListener api st new tg = Inr st"
  by (auto simp: swapListener_def)

lemma map_of_relocate:
  "old \<noteq> new \<Longrightarrow> map_of (profMap (relocate st old oldP1 new newP3)) =
     ((map_of (profMap st))(new \<mapsto> newP3))(old := (if tags oldP1 = [] then None else Some oldP1))"
  by (auto simp: relocate_def Let_def AList.update_conv' AList.delete_conv' fun_upd_twist)

lemma map_of_withdraw:
  "map_of (profMap (withdraw st old oldP1)) =
     (map_of (profMap st))(old := (if tags oldP1 = [] then None else Some oldP1))"
  by (auto simp: withdraw_def AList.update_conv' AList.delete_conv')

section \<open>Well-formed states and the member order\<close>

lemma well_formed_entry_iff: "well_formed st \<Longrightarrow> ((n, p) \<in> set (profMap st)) = (map_of (profMap st) n = Some p)"
  by (simp add: well_formed_def)

lemma well_formed_member_iff: "well_formed st \<Longrightarrow> (n \<in> set (profOrder st)) = (map_of (profMap st) n \<noteq> None)"
  by (auto simp: well_formed_def map_of_eq_None_iff)

lemma members_nonempty_iff:
  "well_formed st \<Longrightarrow> members_nonempty st \<longleftrightarrow> (\<forall>n p. map_of (profMap st) n = Some p \<longrightarrow> tags p \<noteq> [])"
  by (auto simp: members_nonempty_def list_all_iff well_formed_def)

lemma tags_disjoint_iff:
  "well_formed st \<Longrightarrow> tags_disjoint st \<longleftrightarrow>
     (\<forall>n m p q. map_of (profMap st) n = Some p \<longrightarrow> map_of (profMap st) m = Some q \<longrightarrow> n \<noteq> m
        \<longrightarrow> set (tags p) \<inter> set (tags q) = {})"
  unfolding tags_disjoint_def list_all_iff well_formed_def
  by (auto simp: map_of_eq_Some_iff Ball_def) blast+

lemma set_splice_insert: "set (splice_insert i x xs) = insert x (set xs)"
proof -
  have "set (take i xs) \<union> set (drop i xs) = set xs"
    by (metis append_take_drop_id set_append)
  then show ?thesis by (auto simp: splice_insert_def)
qed

lemma distinct_splice_insert: "distinct xs \<Longrightarrow> x \<notin> set xs \<Longrightarrow> distinct (splice_insert i x xs)"
proof -
  assume a: "distinct xs" "x \<notin> set xs"
  have "distinct (take i xs) \<and> distinct (drop i xs) \<and> set (take i xs) \<inter> set (drop i xs) = {}"
    using a by (metis append_take_drop_id distinct_append)
  moreover have "x \<notin> set (take i xs)" "x \<notin> set (drop i xs)"
    using a by (auto dest: in_set_takeD in_set_dropD)
  ultimately show ?thesis by (auto simp: splice_insert_def)
qed

lemma filter_splice_insert:
  "filter P (splice_insert i x xs) = (if P x then splice_insert (length (filter P (take i xs))) x (filter P xs) else filter P xs)"
proof -
  have "filter P xs = filter P (take i xs) @ filter P (drop i xs)"
    by (metis append_take_drop_id filter_append)
  then show ?thesis by (simp add: splice_insert_def)
qed

lemma filter_splice_insert_out: "\<not> P x \<Longrightarrow> filter P (splice_insert i x xs) = filter P xs"
  by (simp add: filter_splice_insert)

lemma splice_after:
  "distinct (xs @ old # ys) \<Longrightarrow>
     splice_insert (nat (indexOf (xs @ old # ys) old + 1)) new (xs @ old # ys) = xs @ old # new # ys"
  by (simp add: indexOf_append_pos splice_insert_def)

lemma well_formed_relocate:
  assumes "well_formed st" "map_of (profMap st) old \<noteq> None" "old \<noteq> new"
  shows "well_formed (relocate st old oldP1 new newP3)"
proof -
  let ?pm = "profMap st" and ?po = "profOrder st"
  let ?pm3 = "AList.update new newP3 (AList.update old oldP1 ?pm)"
  let ?po2 = "(if map_of ?pm new = None
                 then splice_insert (nat (indexOf ?po old + 1)) new ?po else ?po)"
  from assms have d: "distinct (map fst ?pm)" "distinct ?po" "set ?po = fst ` set ?pm"
    and o: "old \<in> fst ` set ?pm"
    by (auto simp: well_formed_def map_of_eq_None_iff)
  have k3: "fst ` set ?pm3 = insert new (fst ` set ?pm)"
    using o by (auto simp: AList.dom_update)
  have d3: "distinct (map fst ?pm3)" using d by (simp add: AList.distinct_update)
  have s2: "set ?po2 = insert new (fst ` set ?pm)"
    using d by (auto simp: set_splice_insert map_of_eq_None_iff)
  have d2: "distinct ?po2"
    using d by (auto simp: map_of_eq_None_iff intro!: distinct_splice_insert)
  have A: "well_formed \<lparr>profOrder = dedupe ?po2, profMap = ?pm3\<rparr>"
    using d2 d3 s2 k3 by (simp add: well_formed_def dedupe_distinct_id)
  have "set (map fst (AList.delete old ?pm3)) = set (map fst ?pm3) - {old}"
    by (simp add: AList.delete_keys)
  then have B: "well_formed \<lparr>profOrder = dedupe (filter (\<lambda>n. n \<noteq> old) ?po2), profMap = AList.delete old ?pm3\<rparr>"
    using d2 d3 s2 k3 by (auto simp: well_formed_def dedupe_distinct_id AList.distinct_delete)
  show ?thesis using A B by (simp add: relocate_def Let_def)
qed

lemma order_relocate:
  assumes "well_formed st" "map_of (profMap st) old \<noteq> None" "old \<noteq> new"
  shows "profOrder (relocate st old oldP1 new newP3) =
     (let po2 = (if map_of (profMap st) new = None
                 then splice_insert (nat (indexOf (profOrder st) old + 1)) new (profOrder st)
                 else profOrder st)
      in if tags oldP1 = [] then filter (\<lambda>n. n \<noteq> old) po2 else po2)"
proof -
  let ?pm = "profMap st" and ?po = "profOrder st"
  let ?po2 = "(if map_of ?pm new = None
                 then splice_insert (nat (indexOf ?po old + 1)) new ?po else ?po)"
  from assms have d: "distinct (map fst ?pm)" "distinct ?po" "set ?po = fst ` set ?pm"
    by (auto simp: well_formed_def)
  have d2: "distinct ?po2"
    using d by (auto simp: map_of_eq_None_iff intro!: distinct_splice_insert)
  then have "dedupe ?po2 = ?po2" "dedupe (filter (\<lambda>n. n \<noteq> old) ?po2) = filter (\<lambda>n. n \<noteq> old) ?po2"
    by (simp_all add: dedupe_distinct_id)
  then show ?thesis by (simp add: relocate_def Let_def)
qed

lemma order_stable_refl: "order_stable xs xs"
  by (simp add: order_stable_def)

lemma order_stable_relocate:
  assumes "well_formed st" "map_of (profMap st) old \<noteq> None" "old \<noteq> new"
  shows "order_stable (profOrder st) (profOrder (relocate st old oldP1 new newP3))"
proof -
  let ?pm = "profMap st" and ?po = "profOrder st"
  from assms have d: "distinct ?po" "set ?po = fst ` set ?pm"
    by (auto simp: well_formed_def)
  have mem: "map_of ?pm new = None \<longleftrightarrow> new \<notin> set ?po"
    using d by (simp add: map_of_eq_None_iff)
  have f1: "filter (\<lambda>n. n \<in> set ?po) ?po = ?po" by simp
  have f2: "filter (\<lambda>n. n = new \<or> n \<in> set ?po) ?po = ?po" by (rule filter_True) simp
  have f3: "\<And>P. filter (\<lambda>n. n \<in> set ?po) (filter P ?po) = filter P ?po"
    by (rule filter_True) simp
  have f4: "filter (\<lambda>n. n \<noteq> old \<and> (n = new \<or> n \<in> set ?po)) ?po = filter (\<lambda>n. n \<noteq> old) ?po"
    by (rule filter_cong) auto
  have f5: "filter (\<lambda>n. n \<noteq> old \<and> n \<in> set ?po) ?po = filter (\<lambda>n. n \<noteq> old) ?po"
    by (rule filter_cong) auto
  show ?thesis
    unfolding order_relocate[OF assms] order_stable_def Let_def
    using mem
    by (auto simp: set_splice_insert filter_splice_insert_out f1 f2 f3 f4 f5 conj_commute)
qed

lemma well_formed_update_member:
  assumes "well_formed st" "map_of (profMap st) n \<noteq> None"
  shows "well_formed \<lparr>profOrder = dedupe (profOrder st), profMap = AList.update n X (profMap st)\<rparr>"
proof -
  have "n \<in> fst ` set (profMap st)" using assms(2) by (simp add: map_of_eq_None_iff)
  then have "fst ` set (AList.update n X (profMap st)) = fst ` set (profMap st)"
    by (auto simp: AList.dom_update)
  then show ?thesis
    using assms(1) by (simp add: well_formed_def dedupe_distinct_id AList.distinct_update)
qed

lemma well_formed_delete_member:
  assumes "well_formed st"
  shows "well_formed \<lparr>profOrder = dedupe (filter (\<lambda>m. m \<noteq> n) (profOrder st)),
                      profMap = AList.delete n (profMap st)\<rparr>"
proof -
  have "set (map fst (AList.delete n (profMap st))) = set (map fst (profMap st)) - {n}"
    by (simp add: AList.delete_keys)
  then show ?thesis
    using assms by (auto simp: well_formed_def dedupe_distinct_id AList.distinct_delete)
qed

lemma order_stable_remove:
  "distinct po \<Longrightarrow> order_stable po (dedupe (filter (\<lambda>m. m \<noteq> n) po))"
proof -
  assume d: "distinct po"
  have a: "filter (\<lambda>m. m \<in> set po) (filter (\<lambda>m. m \<noteq> n) po) = filter (\<lambda>m. m \<noteq> n) po"
    by (rule filter_True) simp
  have b: "filter (\<lambda>m. m \<in> set po \<and> m \<noteq> n) po = filter (\<lambda>m. m \<noteq> n) po"
    by (rule filter_cong) auto
  show ?thesis using d by (simp add: order_stable_def dedupe_distinct_id a b conj_commute)
qed

lemma well_formed_withdraw:
  assumes "well_formed st" "map_of (profMap st) old \<noteq> None"
  shows "well_formed (withdraw st old oldP1)"
  using well_formed_update_member[OF assms] well_formed_delete_member[OF assms(1)]
  by (simp add: withdraw_def)

lemma order_withdraw:
  assumes "well_formed st"
  shows "profOrder (withdraw st old oldP1) =
     (if tags oldP1 = [] then filter (\<lambda>n. n \<noteq> old) (profOrder st) else profOrder st)"
proof -
  have d: "distinct (profOrder st)" using assms by (simp add: well_formed_def)
  then show ?thesis by (simp add: withdraw_def dedupe_distinct_id)
qed

lemma order_stable_withdraw:
  assumes "well_formed st"
  shows "order_stable (profOrder st) (profOrder (withdraw st old oldP1))"
proof -
  have d: "distinct (profOrder st)" using assms by (simp add: well_formed_def)
  show ?thesis
    using order_stable_remove[OF d, of old]
    by (simp add: withdraw_def dedupe_distinct_id[OF d] order_stable_refl)
qed

section \<open>Assigned tags after a move; the initial team\<close>

lemma tags_newProfEntry [simp]: "tags (newProfEntry api M n) = []"
  by (induction M) (auto split: option.split)

lemma tags_swapProfEntry [simp]: "tags (swapProfEntry api tg n) = []"
  by (simp add: swapProfEntry_def split: option.split)

lemma tags_dest_entry: "tags fresh = [] \<Longrightarrow> tags (dest_entry st new fresh) = assigned st new"
  by (simp add: dest_entry_def assigned_def split: option.split)

lemma assigned_relocate:
  "old \<noteq> new \<Longrightarrow> assigned (relocate st old oldP1 new newP3) n =
     (if n = old then tags oldP1 else if n = new then tags newP3 else assigned st n)"
  by (simp add: assigned_def map_of_relocate)

lemma map_of_relocate_other:
  "old \<noteq> new \<Longrightarrow> n \<noteq> old \<Longrightarrow> n \<noteq> new \<Longrightarrow>
     map_of (profMap (relocate st old oldP1 new newP3)) n = map_of (profMap st) n"
  by (simp add: map_of_relocate)


lemma find_holder:
  assumes "well_formed st" "tags_disjoint st" "map_of (profMap st) old = Some oldP" "tg \<in> set (tags oldP)"
  shows "find (\<lambda>e. tg \<in> set (tags (snd e))) (profMap st) = Some (old, oldP)"
proof -
  have in_pm: "(old, oldP) \<in> set (profMap st)" using assms(1,3) by (simp add: well_formed_entry_iff)
  then have "find (\<lambda>e. tg \<in> set (tags (snd e))) (profMap st) \<noteq> None"
    using assms(4) by (auto simp: find_None_iff)
  then obtain k c where f: "find (\<lambda>e. tg \<in> set (tags (snd e))) (profMap st) = Some (k, c)"
    by (cases "find (\<lambda>e. tg \<in> set (tags (snd e))) (profMap st)") auto
  from find_Some_set[OF f] have kc: "(k, c) \<in> set (profMap st)" "tg \<in> set (tags c)" by auto
  then have m: "map_of (profMap st) k = Some c" using assms(1) by (simp add: well_formed_entry_iff)
  have "k = old"
  proof (rule ccontr)
    assume "k \<noteq> old"
    with assms(2) m assms(3) have "set (tags c) \<inter> set (tags oldP) = {}"
      using tags_disjoint_iff[OF assms(1)] by blast
    with kc(2) assms(4) show False by blast
  qed
  with m assms(3) f show ?thesis by simp
qed

lemma assigned_withdraw:
  "assigned (withdraw st old oldP1) n = (if n = old then tags oldP1 else assigned st n)"
  by (simp add: assigned_def map_of_withdraw)

lemma add_team_prof_cases:
  assumes "add_team_prof p st = Inr st'"
  obtains "map_of (profMap st) (name p) = None"
      "st' = \<lparr>profOrder = profOrder st @ [name p],
             profMap = AList.update (name p) p (profMap st)\<rparr>"
  | q where "map_of (profMap st) (name p) = Some q"
      "st' = st\<lparr>profMap := AList.update (name p) (q\<lparr>tags := tags q @ tags p\<rparr>) (profMap st)\<rparr>"
  using assms by (auto simp: add_team_prof_def split: option.splits if_splits)

lemma well_formed_add_team_prof:
  assumes "well_formed st" "add_team_prof p st = Inr st'"
  shows "well_formed st'"
  using assms(2)
proof (cases rule: add_team_prof_cases)
  case 1
  then have "name p \<notin> fst ` set (profMap st)" by (simp add: map_of_eq_None_iff)
  then show ?thesis
    using assms(1) unfolding 1(2)
    by (auto simp: well_formed_def AList.distinct_update AList.dom_update)
next
  case (2 q)
  then have "name p \<in> fst ` set (profMap st)"
    by (metis map_of_eq_None_iff option.distinct(1))
  then show ?thesis
    using assms(1) unfolding 2(2)
    by (auto simp: well_formed_def AList.distinct_update AList.dom_update)
qed

lemma well_formed_team_loop:
  "well_formed st \<Longrightarrow> team_loop team st = Inr st' \<Longrightarrow> well_formed st'"
proof (induction team arbitrary: st)
  case Nil
  then show ?case by simp
next
  case (Cons p team)
  from Cons.prems(2) obtain s1 where s1: "add_team_prof p st = Inr s1" "team_loop team s1 = Inr st'"
    by (cases "add_team_prof p st") auto
  from Cons.prems(1) s1(1) have "well_formed s1" by (rule well_formed_add_team_prof)
  then show ?case using s1(2) by (rule Cons.IH)
qed

lemma order_add_team_prof:
  assumes "well_formed st" "add_team_prof p st = Inr st'"
  shows "profOrder st' = set_add (name p) (profOrder st)"
  using assms(2)
proof (cases rule: add_team_prof_cases)
  case 1
  then have "name p \<notin> set (profOrder st)"
    using assms(1) by (simp add: well_formed_def map_of_eq_None_iff)
  then show ?thesis unfolding 1(2) by (simp add: set_add_def)
next
  case (2 q)
  then have "name p \<in> fst ` set (profMap st)"
    by (metis map_of_eq_None_iff option.distinct(1))
  then have "name p \<in> set (profOrder st)" using assms(1) by (simp add: well_formed_def)
  then show ?thesis unfolding 2(2) by (simp add: set_add_def)
qed

lemma order_team_loop:
  "well_formed st \<Longrightarrow> team_loop team st = Inr st' \<Longrightarrow>
     profOrder st' = fold set_add (map name team) (profOrder st)"
proof (induction team arbitrary: st)
  case Nil
  then show ?case by simp
next
  case (Cons p team)
  from Cons.prems(2) obtain s1 where s1: "add_team_prof p st = Inr s1" "team_loop team s1 = Inr st'"
    by (cases "add_team_prof p st") auto
  from Cons.prems(1) s1(1) have w: "well_formed s1" by (rule well_formed_add_team_prof)
  from Cons.IH[OF w s1(2)] order_add_team_prof[OF Cons.prems(1) s1(1)]
  show ?case by simp
qed

lemma well_formed_empty: "well_formed \<lparr>profOrder = [], profMap = []\<rparr>"
  by (simp add: well_formed_def)

lemma assigned_add_team_prof:
  assumes "add_team_prof p st = Inr st'"
  shows "set (assigned st' n) =
     set (assigned st n) \<union> (if name p = n then set (tags p) else {})"
  using assms
proof (cases rule: add_team_prof_cases)
  case 1
  then show ?thesis by (auto simp: assigned_def AList.update_conv')
next
  case (2 q)
  then show ?thesis by (auto simp: assigned_def AList.update_conv')
qed

lemma assigned_team_loop:
  "team_loop team st = Inr st' \<Longrightarrow>
     set (assigned st' n) =
       set (assigned st n) \<union> (\<Union>p \<in> {p \<in> set team. name p = n}. set (tags p))"
proof (induction team arbitrary: st)
  case Nil
  then show ?case by simp
next
  case (Cons p team)
  from Cons.prems obtain s1 where s1: "add_team_prof p st = Inr s1" "team_loop team s1 = Inr st'"
    by (cases "add_team_prof p st") auto
  from Cons.IH[OF s1(2)] assigned_add_team_prof[OF s1(1), of n]
  show ?case by auto
qed

lemma team_loop_plain:
  "\<forall>p\<in>set team. name p \<notin> set object_prototype_names \<Longrightarrow> \<exists>st'. team_loop team st = Inr st'"
proof (induction team arbitrary: st)
  case Nil
  then show ?case by simp
next
  case (Cons p team)
  from Cons.prems have "\<exists>s1. add_team_prof p st = Inr s1"
    by (auto simp: add_team_prof_def split: option.splits)
  then obtain s1 where "add_team_prof p st = Inr s1" by blast
  with Cons.IH[of s1] Cons.prems show ?case by simp
qed

lemma tags_disjoint_assigned:
  assumes "well_formed st"
  shows "tags_disjoint st \<longleftrightarrow>
     (\<forall>n m. n \<noteq> m \<longrightarrow> set (assigned st n) \<inter> set (assigned st m) = {})"
proof
  assume td: "tags_disjoint st"
  show "\<forall>n m. n \<noteq> m \<longrightarrow> set (assigned st n) \<inter> set (assigned st m) = {}"
  proof (intro allI impI)
    fix n m :: string assume nm: "n \<noteq> m"
    show "set (assigned st n) \<inter> set (assigned st m) = {}"
    proof (cases "map_of (profMap st) n")
      case None
      then show ?thesis by (simp add: assigned_def)
    next
      case (Some p)
      show ?thesis
      proof (cases "map_of (profMap st) m")
        case None
        then show ?thesis by (simp add: assigned_def)
      next
        case (Some q)
        with \<open>map_of (profMap st) n = Some p\<close> nm td show ?thesis
          using tags_disjoint_iff[OF assms] by (simp add: assigned_def)
      qed
    qed
  qed
next
  assume a: "\<forall>n m. n \<noteq> m \<longrightarrow> set (assigned st n) \<inter> set (assigned st m) = {}"
  have "set (tags p) \<inter> set (tags q) = {}"
    if "map_of (profMap st) n = Some p" "map_of (profMap st) m = Some q" "n \<noteq> m" for n m p q
    using a[rule_format, OF that(3)] that(1,2) by (simp add: assigned_def)
  then show "tags_disjoint st"
    using tags_disjoint_iff[OF assms] by blast
qed

lemma members_nonempty_assigned:
  "well_formed st \<Longrightarrow> members_nonempty st \<longleftrightarrow> (\<forall>n. map_of (profMap st) n \<noteq> None \<longrightarrow> assigned st n \<noteq> [])"
  by (auto simp: members_nonempty_iff assigned_def)

section \<open>Evaluation of the listeners on concrete states\<close>

lemmas listener_eval =
  dropdownListener_def swapListener_def init_team_def add_team_prof_def Let_def
  tagsToMove_def newProfCommonCount_def getProfsForTags_def count_prof_def count_key_def
  count_ge_one_def object_prototype_names_def absent_def inherited_def
  profsForDropdown_def dropdownOptions_def
  possesses_def profs_by_tag_def str_def blank_def trim_def js_whitespace_def
  from_set_def set_add_def dedupe_def splice_insert_def swapProfEntry_def
  well_formed_def members_nonempty_def tags_disjoint_def team_disjoint_def assigned_def
  order_stable_def mk_prof_def tagA_def tagB_def tagC_def
  api1_def st1_def team1_def api2_def st2_def st3_def api4_def st4_def api5_def st6_def
  api7_def st7_def api8_def st8_def api9_def

lemma st1_init: "init_team team1 = Inr st1"
  by (simp add: listener_eval)


section \<open>No tag under two members\<close>

lemma dropdown_self:
  assumes "new \<noteq> []" "map_of (profMap st) new = Some p"
  shows "dropdownListener api st new T new =
     Inr (let X = p\<lparr>tags := from_set (filter (\<lambda>tg. tg \<notin> set (tagsToMove api T new)) (tags p)
                                  @ filter (\<lambda>tg. \<not> blank tg) (tagsToMove api T new))\<rparr>
          in if tags X = []
             then \<lparr>profOrder = dedupe (filter (\<lambda>n. n \<noteq> new) (profOrder st)),
                   profMap = AList.delete new (profMap st)\<rparr>
             else \<lparr>profOrder = dedupe (profOrder st), profMap = AList.update new X (profMap st)\<rparr>)"
  using assms
  by (simp add: dropdownListener_def Let_def AList.update_conv' AList.delete_update_same
      absent_def)

lemma tags_disjoint_relocate:
  assumes "well_formed st" "tags_disjoint st" "map_of (profMap st) old = Some oldP" "old \<noteq> new"
    "set (tags oldP1) \<subseteq> set (tags oldP)"
    "set (tags newP3) \<subseteq> set (assigned st new) \<union> X" "X \<subseteq> set (tags oldP)"
    "X \<inter> set (tags oldP1) = {}"
  shows "tags_disjoint (relocate st old oldP1 new newP3)"
proof -
  have m: "map_of (profMap st) old \<noteq> None" using assms(3) by simp
  have w: "well_formed (relocate st old oldP1 new newP3)"
    using assms(1) m assms(4) by (rule well_formed_relocate)
  have ao: "set (assigned st old) = set (tags oldP)" using assms(3) by (simp add: assigned_def)
  have d: "\<And>n m. n \<noteq> m \<Longrightarrow> set (assigned st n) \<inter> set (assigned st m) = {}"
    using assms(2) tags_disjoint_assigned[OF assms(1)] by blast
  have on: "set (tags oldP) \<inter> set (assigned st new) = {}"
    using d[OF assms(4)] ao by simp
  have oo: "\<And>m. m \<noteq> old \<Longrightarrow> set (tags oldP) \<inter> set (assigned st m) = {}"
    using d[of old] ao by auto
  have no: "\<And>m. m \<noteq> new \<Longrightarrow> set (assigned st new) \<inter> set (assigned st m) = {}"
    using d[of new] by auto
  show ?thesis
    unfolding tags_disjoint_assigned[OF w]
  proof (intro allI impI)
    fix n m :: string assume nm: "n \<noteq> m"
    consider "n = old" "m = new" | "n = new" "m = old" | "n = old" "m \<noteq> new" "m \<noteq> old"
      | "m = old" "n \<noteq> new" "n \<noteq> old" | "n = new" "m \<noteq> new" "m \<noteq> old"
      | "m = new" "n \<noteq> new" "n \<noteq> old" | "n \<noteq> old" "n \<noteq> new" "m \<noteq> old" "m \<noteq> new"
      using nm by blast
    then show "set (assigned (relocate st old oldP1 new newP3) n)
        \<inter> set (assigned (relocate st old oldP1 new newP3) m) = {}"
    proof cases
      case 1
      then show ?thesis
        using assms(4,5,6,8) on by (simp add: assigned_relocate) blast
    next
      case 2
      then show ?thesis
        using assms(4,5,6,8) on by (simp add: assigned_relocate) blast
    next
      case 3
      then show ?thesis
        using assms(4,5) oo[of m] by (simp add: assigned_relocate) blast
    next
      case 4
      then show ?thesis
        using assms(4,5) oo[of n] by (simp add: assigned_relocate) blast
    next
      case 5
      then show ?thesis
        using assms(4,6,7) oo[of m] no[of m] by (simp add: assigned_relocate) blast
    next
      case 6
      then show ?thesis
        using assms(4,6,7) oo[of n] no[of n] by (simp add: assigned_relocate) blast
    next
      case 7
      then show ?thesis
        using d[OF nm] assms(4) by (simp add: assigned_relocate)
    qed
  qed
qed

lemma tags_disjoint_shrink:
  assumes "well_formed st" "tags_disjoint st" "well_formed st'"
    "\<And>n. set (assigned st' n) \<subseteq> set (assigned st n)"
  shows "tags_disjoint st'"
proof -
  have d: "\<And>n m. n \<noteq> m \<Longrightarrow> set (assigned st n) \<inter> set (assigned st m) = {}"
    using assms(2) tags_disjoint_assigned[OF assms(1)] by blast
  show ?thesis
    unfolding tags_disjoint_assigned[OF assms(3)]
  proof (intro allI impI)
    fix n m :: string assume "n \<noteq> m"
    from d[OF this] assms(4)[of n] assms(4)[of m]
    show "set (assigned st' n) \<inter> set (assigned st' m) = {}" by blast
  qed
qed

lemma tags_disjoint_withdraw:
  assumes "well_formed st" "tags_disjoint st" "map_of (profMap st) old = Some oldP"
    "set (tags oldP1) \<subseteq> set (tags oldP)"
  shows "tags_disjoint (withdraw st old oldP1)"
proof -
  have m: "map_of (profMap st) old \<noteq> None" using assms(3) by simp
  show ?thesis
    using assms(1,2) well_formed_withdraw[OF assms(1) m]
  proof (rule tags_disjoint_shrink)
    fix n
    show "set (assigned (withdraw st old oldP1) n) \<subseteq> set (assigned st n)"
      using assms(3,4) by (simp add: assigned_withdraw) (simp add: assigned_def)
  qed
qed

lemma swap_disjoint:
  assumes "well_formed st" "tags_disjoint st"
  shows "\<exists>st'. swapListener api st new tg = Inr st' \<and> tags_disjoint st'"
proof (cases "find (\<lambda>e. tg \<in> set (tags (snd e))) (profMap st)")
  case None
  then show ?thesis using assms by (simp add: swap_noop)
next
  case (Some e)
  obtain k c where e: "e = (k, c)" by (cases e)
  with Some have f: "find (\<lambda>e. tg \<in> set (tags (snd e))) (profMap st) = Some (k, c)" by simp
  have kc: "map_of (profMap st) k = Some c" "tg \<in> set (tags c)"
    using find_holder_Some[OF f] assms(1) by (simp_all add: well_formed_def)
  let ?c1 = "c\<lparr>tags := filter (\<lambda>t. t \<noteq> tg) (tags c)\<rparr>"
  show ?thesis
  proof (cases "k = new")
    case True
    with f show ?thesis using assms by (simp add: swap_noop)
  next
    case False
    show ?thesis
    proof (cases "inherited (profMap st) new")
      case True
      have "tags_disjoint (withdraw st k ?c1)"
        using assms kc(1) by (rule tags_disjoint_withdraw) auto
      then show ?thesis unfolding swap_withdraw[OF f True] by simp
    next
      case ni: False
      let ?n = "dest_entry st new (swapProfEntry api tg new)"
      let ?n3 = "?n\<lparr>tags := tags ?n @ [tg]\<rparr>"
      have t: "tags ?n = assigned st new" by (rule tags_dest_entry) (rule tags_swapProfEntry)
      have "tags_disjoint (relocate st k ?c1 new ?n3)"
      proof (rule tags_disjoint_relocate[OF assms kc(1) False, where X = "{tg}"])
        show "set (tags ?c1) \<subseteq> set (tags c)" by auto
        show "set (tags ?n3) \<subseteq> set (assigned st new) \<union> {tg}" using t by auto
        show "{tg} \<subseteq> set (tags c)" using kc(2) by simp
        show "{tg} \<inter> set (tags ?c1) = {}" by simp
      qed
      then show ?thesis
        unfolding swap_relocate[OF f False ni] by (simp add: Let_def)
    qed
  qed
qed

lemma dropdown_self_disjoint:
  assumes "well_formed st" "tags_disjoint st" "map_of (profMap st) new = Some p"
    "set T \<subseteq> set (tags p)"
  shows "\<exists>st'. dropdownListener api st new T new = Inr st' \<and> tags_disjoint st'"
proof (cases "new = []")
  case True
  then show ?thesis using assms(2) by (simp add: dropdownListener_def)
next
  case False
  have m: "map_of (profMap st) new \<noteq> None" using assms(3) by simp
  let ?M = "tagsToMove api T new"
  let ?X = "p\<lparr>tags := from_set (filter (\<lambda>tg. tg \<notin> set ?M) (tags p) @ filter (\<lambda>tg. \<not> blank tg) ?M)\<rparr>"
  have MT: "set ?M \<subseteq> set (tags p)" using assms(4) set_tagsToMove[of api T new] by auto
  then have X: "set (tags ?X) \<subseteq> set (tags p)" by (auto simp: set_from_set)
  have A: "tags_disjoint \<lparr>profOrder = dedupe (filter (\<lambda>n. n \<noteq> new) (profOrder st)),
                          profMap = AList.delete new (profMap st)\<rparr>"
    using assms(1,2) well_formed_delete_member[OF assms(1)]
    by (rule tags_disjoint_shrink) (simp add: assigned_def AList.delete_conv')
  have B: "tags_disjoint \<lparr>profOrder = dedupe (profOrder st),
                          profMap = AList.update new ?X (profMap st)\<rparr>"
    using assms(1,2) well_formed_update_member[OF assms(1) m]
  proof (rule tags_disjoint_shrink)
    fix n
    show "set (assigned \<lparr>profOrder = dedupe (profOrder st),
                         profMap = AList.update new ?X (profMap st)\<rparr> n) \<subseteq> set (assigned st n)"
      using X assms(3) by (simp add: assigned_def AList.update_conv')
  qed
  show ?thesis
    unfolding dropdown_self[OF False assms(3)] Let_def
    using A B by simp
qed

lemma dropdown_disjoint:
  assumes "well_formed st" "tags_disjoint st" "map_of (profMap st) old = Some oldP"
    "set T \<subseteq> set (tags oldP)"
  shows "\<exists>st'. dropdownListener api st old T new = Inr st' \<and> tags_disjoint st'"
proof (cases "old = new")
  case True
  then show ?thesis using dropdown_self_disjoint[OF assms(1,2), of new oldP T api] assms(3,4) by simp
next
  case on: False
  let ?M = "tagsToMove api T new"
  let ?F = "filter (\<lambda>tg. \<not> blank tg) ?M"
  let ?o1 = "oldP\<lparr>tags := filter (\<lambda>tg. tg \<notin> set ?M) (tags oldP)\<rparr>"
  show ?thesis
  proof (cases "new = []")
    case True
    then show ?thesis using assms(2) by (simp add: dropdownListener_def)
  next
    case False
    show ?thesis
    proof (cases "inherited (profMap st) new")
      case True
      have "tags_disjoint (withdraw st old ?o1)"
        using assms(1,2,3) by (rule tags_disjoint_withdraw) auto
      then show ?thesis unfolding dropdown_withdraw[OF False assms(3) True] by simp
    next
      case ni: False
      let ?n = "dest_entry st new (newProfEntry api ?M new)"
      let ?n3 = "?n\<lparr>tags := from_set (tags ?n @ ?F)\<rparr>"
      have t: "tags ?n = assigned st new" by (rule tags_dest_entry) (rule tags_newProfEntry)
      have "tags_disjoint (relocate st old ?o1 new ?n3)"
      proof (rule tags_disjoint_relocate[OF assms(1,2,3) on, where X = "set ?F"])
        show "set (tags ?o1) \<subseteq> set (tags oldP)" by auto
        show "set (tags ?n3) \<subseteq> set (assigned st new) \<union> set ?F"
          using t by (simp add: set_from_set)
        show "set ?F \<subseteq> set (tags oldP)" using set_tagsToMove[of api T new] assms(4) by auto
        show "set ?F \<inter> set (tags ?o1) = {}" by auto
      qed
      then show ?thesis
        unfolding dropdown_relocate[OF False assms(3) on ni] by (simp add: Let_def)
    qed
  qed
qed

lemma init_disjoint:
  assumes "team_disjoint team" "init_team team = Inr st0"
  shows "tags_disjoint st0"
proof -
  have l: "team_loop team \<lparr>profOrder = [], profMap = []\<rparr> = Inr st0"
    using assms(2) by (simp add: init_team_def)
  have w: "well_formed st0"
    using well_formed_empty l by (rule well_formed_team_loop)
  have a: "set (assigned st0 n) = (\<Union>p \<in> {p \<in> set team. name p = n}. set (tags p))"
    for n
    unfolding assigned_team_loop[OF l] by (simp add: assigned_def)
  have d: "set (tags p) \<inter> set (tags q) = {}"
    if "p \<in> set team" "q \<in> set team" "name p \<noteq> name q" for p q
    using assms(1) that by (auto simp: team_disjoint_def list_all_iff)
  show ?thesis
    unfolding tags_disjoint_assigned[OF w] a
    using d by blast
qed

lemma init_plain:
  "\<forall>p\<in>set team. name p \<notin> set object_prototype_names \<Longrightarrow> \<exists>st0. init_team team = Inr st0"
  unfolding init_team_def by (rule team_loop_plain)

text \<open>
  C7. No tag is assigned to two different team members. The initial team has the
  property when the team list of the API has it (entries of the same name are merged;
  the construction succeeds when no name is a property of \<^verbatim>\<open>Object.prototype\<close>). From a
  well-formed state with the property, every swap and every dropdown reassignment of
  tags the source holds returns a state with the property: what is given to the
  destination is taken from the source.
\<close>

theorem no_tag_under_two_members:
  "(team_disjoint team \<longrightarrow> init_team team = Inr st0 \<longrightarrow> tags_disjoint st0)
   \<and> ((\<forall>p\<in>set team. name p \<notin> set object_prototype_names) \<longrightarrow> (\<exists>s. init_team team = Inr s))
   \<and> (well_formed st \<longrightarrow> tags_disjoint st \<longrightarrow>
        (\<exists>st'. swapListener api st new tg = Inr st' \<and> tags_disjoint st'))
   \<and> (well_formed st \<longrightarrow> tags_disjoint st \<longrightarrow>
        map_of (profMap st) old = Some oldP \<longrightarrow> set T \<subseteq> set (tags oldP) \<longrightarrow>
        (\<exists>st'. dropdownListener api st old T new = Inr st' \<and> tags_disjoint st'))"
proof (intro conjI impI)
  assume "team_disjoint team" "init_team team = Inr st0"
  then show "tags_disjoint st0" by (rule init_disjoint)
next
  assume "\<forall>p\<in>set team. name p \<notin> set object_prototype_names"
  then show "\<exists>s. init_team team = Inr s" by (rule init_plain)
next
  assume "well_formed st" "tags_disjoint st"
  then show "\<exists>st'. swapListener api st new tg = Inr st' \<and> tags_disjoint st'"
    by (rule swap_disjoint)
next
  assume "well_formed st" "tags_disjoint st" "map_of (profMap st) old = Some oldP"
    "set T \<subseteq> set (tags oldP)"
  then show "\<exists>st'. dropdownListener api st old T new = Inr st' \<and> tags_disjoint st'"
    by (rule dropdown_disjoint)
qed

theorem no_tag_under_two_members_witness:
  "team_disjoint team1 \<and> init_team team1 = Inr st1 \<and> tags_disjoint st1
   \<and> (\<exists>s. init_team team1 = Inr s)
   \<and> well_formed st1
   \<and> (\<exists>st'. swapListener api1 st1 ''P2'' tagA = Inr st' \<and> tags_disjoint st')
   \<and> map_of (profMap st1) ''P1'' = Some (mk_prof ''P1'' [tagA, tagB])
   \<and> set [tagA, tagB] \<subseteq> set (tags (mk_prof ''P1'' [tagA, tagB]))
   \<and> (\<exists>st'. dropdownListener api1 st1 ''P1'' [tagA, tagB] ''P2'' = Inr st' \<and> tags_disjoint st')"
proof -
  note t = no_tag_under_two_members[of team1 st1 st1 api1 "''P2''" tagA "''P1''"
      "mk_prof ''P1'' [tagA, tagB]" "[tagA, tagB]"]
  have td: "team_disjoint team1" by (simp add: listener_eval)
  have pl: "\<forall>p\<in>set team1. name p \<notin> set object_prototype_names"
    by (simp add: listener_eval)
  have w: "well_formed st1" by (simp add: listener_eval)
  have d: "tags_disjoint st1" using t[THEN conjunct1, rule_format, OF td st1_init] .
  have a: "map_of (profMap st1) ''P1'' = Some (mk_prof ''P1'' [tagA, tagB])"
    "set [tagA, tagB] \<subseteq> set (tags (mk_prof ''P1'' [tagA, tagB]))"
    by (simp_all add: listener_eval)
  show ?thesis
    by (intro conjI td st1_init d w a
        t[THEN conjunct2, THEN conjunct1, THEN mp, OF pl]
        t[THEN conjunct2, THEN conjunct2, THEN conjunct1, rule_format, OF w d]
        t[THEN conjunct2, THEN conjunct2, THEN conjunct2, rule_format, OF w d a])
qed

section \<open>The destination's tag list\<close>

lemma dropdown_Inr_member:
  assumes "new \<noteq> []" "dropdownListener api st old T new = Inr st'"
  obtains oldP where "map_of (profMap st) old = Some oldP"
  using assms by (cases "map_of (profMap st) old") (auto simp: dropdownListener_def Let_def)

text \<open>
  C9. After a dropdown reassignment the destination's list of assigned tags has no
  duplicate: line 431 passes the destination's old list followed by the moved tags
  through a set. The new list is the old one, each tag once, followed by the moved tags
  the destination did not hold, so a tag it already holds is not added a second time.
\<close>

theorem dropdown_dest_distinct:
  assumes "new \<noteq> []" "dropdownListener api st old T new = Inr st'"
  shows "(\<forall>p. map_of (profMap st') new = Some p \<longrightarrow> distinct (tags p))
     \<and> (old \<noteq> new \<longrightarrow> \<not> inherited (profMap st) new \<longrightarrow>
          map_of (profMap st') new \<noteq> None
          \<and> assigned st' new =
              from_set (assigned st new @ filter (\<lambda>tg. \<not> blank tg) (tagsToMove api T new))
          \<and> distinct (assigned st' new)
          \<and> set (assigned st' new) =
              set (assigned st new) \<union> {tg \<in> set (tagsToMove api T new). \<not> blank tg})"
proof (intro conjI impI allI)
  fix p assume "map_of (profMap st') new = Some p"
  with assms show "distinct (tags p)"
    by (auto simp: dropdownListener_def Let_def AList.update_conv' AList.delete_conv'
        distinct_from_set absent_def split: option.splits if_splits)
next
  assume on: "old \<noteq> new" and ni: "\<not> inherited (profMap st) new"
  from assms obtain oldP where o: "map_of (profMap st) old = Some oldP"
    by (rule dropdown_Inr_member)
  let ?M = "tagsToMove api T new"
  have t: "tags (dest_entry st new (newProfEntry api ?M new)) = assigned st new"
    by (rule tags_dest_entry) (rule tags_newProfEntry)
  have r: "st' = relocate st old (oldP\<lparr>tags := filter (\<lambda>tg. tg \<notin> set ?M) (tags oldP)\<rparr>) new
      ((dest_entry st new (newProfEntry api ?M new))
         \<lparr>tags := from_set (assigned st new @ filter (\<lambda>tg. \<not> blank tg) ?M)\<rparr>)"
    using dropdown_relocate[OF assms(1) o on ni, of api T] assms(2) t by (simp add: Let_def)
  show "map_of (profMap st') new \<noteq> None"
    unfolding r using on by (simp add: map_of_relocate)
  show a: "assigned st' new = from_set (assigned st new @ filter (\<lambda>tg. \<not> blank tg) ?M)"
    unfolding r using on by (simp add: assigned_relocate)
  show "distinct (assigned st' new)" unfolding a by (rule distinct_from_set)
  show "set (assigned st' new) = set (assigned st new) \<union> {tg \<in> set ?M. \<not> blank tg}"
    unfolding a by (auto simp: set_from_set)
qed

lemma st7_dropdown_P2:
  "dropdownListener api7 st7 ''P1'' [tagA, tagB] ''P2'' =
     Inr \<lparr>profOrder = [''P1'', ''P2''],
          profMap = [(''P1'', mk_prof ''P1'' [tagB]), (''P2'', mk_prof ''P2'' [tagC, tagA])]\<rparr>"
  by (simp add: listener_eval)

theorem dropdown_dest_distinct_witness:
  "''P2'' \<noteq> [] \<and> ''P1'' \<noteq> ''P2'' \<and> \<not> inherited (profMap st7) ''P2''
   \<and> assigned st7 ''P2'' = [tagC, tagA] \<and> tagsToMove api7 [tagA, tagB] ''P2'' = [tagA]
   \<and> dropdownListener api7 st7 ''P1'' [tagA, tagB] ''P2'' =
       Inr \<lparr>profOrder = [''P1'', ''P2''],
            profMap = [(''P1'', mk_prof ''P1'' [tagB]), (''P2'', mk_prof ''P2'' [tagC, tagA])]\<rparr>
   \<and> assigned \<lparr>profOrder = [''P1'', ''P2''],
         profMap = [(''P1'', mk_prof ''P1'' [tagB]), (''P2'', mk_prof ''P2'' [tagC, tagA])]\<rparr> ''P2''
       = from_set ([tagC, tagA] @ filter (\<lambda>tg. \<not> blank tg) [tagA])
   \<and> distinct (assigned \<lparr>profOrder = [''P1'', ''P2''],
         profMap = [(''P1'', mk_prof ''P1'' [tagB]), (''P2'', mk_prof ''P2'' [tagC, tagA])]\<rparr> ''P2'')
   \<and> from_set ([tagC, tagA] @ filter (\<lambda>tg. \<not> blank tg) [tagA]) = [tagC, tagA]"
proof -
  have h: "''P2'' \<noteq> []" "''P1'' \<noteq> ''P2''" "\<not> inherited (profMap st7) ''P2''"
    by (simp_all add: listener_eval)
  have e: "assigned st7 ''P2'' = [tagC, tagA]" "tagsToMove api7 [tagA, tagB] ''P2'' = [tagA]"
    "from_set ([tagC, tagA] @ filter (\<lambda>tg. \<not> blank tg) [tagA]) = [tagC, tagA]"
    by (simp_all add: listener_eval)
  note t = dropdown_dest_distinct[OF h(1) st7_dropdown_P2, THEN conjunct2, rule_format, OF h(2,3)]
  show ?thesis
    by (intro conjI h e st7_dropdown_P2 t[THEN conjunct2, THEN conjunct1, unfolded e(1,2)]
        t[THEN conjunct2, THEN conjunct2, THEN conjunct1])
qed

section \<open>Blank tags\<close>




section \<open>Which tags a multi-tag move takes\<close>

text \<open>
  C3. The claim: of the source's tags T exactly those the destination possesses are
  moved. Line 390 leaves out a tag that is empty or only whitespace even when the roster
  lists the destination under it: here P2 possesses both tags of P1 and only \<^verbatim>\<open>ai\<close>
  is moved. And for a destination whose name is a property of \<^verbatim>\<open>Object.prototype\<close>
  the count of line 386 is a string, the test of line 388 fails and all tags are taken
  from the source: here \<^verbatim>\<open>constructor\<close> possesses only \<^verbatim>\<open>ai\<close>, and P1 loses both
  tags and leaves the team.
\<close>

theorem multi_tag_counterexample:
  "possesses api2 ''P2'' [] \<and> possesses api2 ''P2'' tagA
   \<and> map_of (profMap st2) ''P1'' = Some (mk_prof ''P1'' [[], tagA])
   \<and> dropdownListener api2 st2 ''P1'' [[], tagA] ''P2'' =
       Inr \<lparr>profOrder = [''P1'', ''P2''],
            profMap = [(''P1'', mk_prof ''P1'' [[]]), (''P2'', mk_prof ''P2'' [tagA])]\<rparr>
   \<and> possesses api8 ''constructor'' tagA \<and> \<not> possesses api8 ''constructor'' tagB
   \<and> map_of (profMap st8) ''P1'' = Some (mk_prof ''P1'' [tagA, tagB])
   \<and> ''constructor'' \<in> set (dropdownOptions api8 st8 ''P1'')
   \<and> dropdownListener api8 st8 ''P1'' [tagA, tagB] ''constructor'' =
       Inr \<lparr>profOrder = [], profMap = []\<rparr>"
  by (simp add: listener_eval)

text \<open>
  C3 as amended. For a source holding T and a different destination whose name is not
  a property of \<^verbatim>\<open>Object.prototype\<close>: when T has more
  than one tag, the tags moved are exactly the tags of T that are not blank and that the
  destination possesses (so a single shared tag is moved alone, never all of T); when T
  has one tag, that tag is moved. The moved tags leave the source, the moved tags that
  are not blank are unioned into the destination's list, and no other entry changes.
\<close>

theorem multi_tag_move:
  assumes "new \<noteq> []" "old \<noteq> new" "map_of (profMap st) old = Some oldP" "tags oldP = T"
    "new \<notin> set object_prototype_names"
  shows "tagsToMove api T new =
           (if length T > 1 then filter (\<lambda>tg. \<not> blank tg \<and> possesses api new tg) T else T)
      \<and> (\<exists>st'. dropdownListener api st old T new = Inr st'
            \<and> assigned st' old = filter (\<lambda>tg. tg \<notin> set (tagsToMove api T new)) T
            \<and> assigned st' new =
                from_set (assigned st new @ filter (\<lambda>tg. \<not> blank tg) (tagsToMove api T new))
            \<and> (\<forall>n. n \<noteq> old \<longrightarrow> n \<noteq> new \<longrightarrow>
                  map_of (profMap st') n = map_of (profMap st) n))"
proof -
  have ni: "\<not> inherited (profMap st) new" using assms(5) by (simp add: inherited_def)
  have "tags (dest_entry st new (newProfEntry api (tagsToMove api T new) new)) = assigned st new"
    by (rule tags_dest_entry) (rule tags_newProfEntry)
  then have "\<exists>st'. dropdownListener api st old T new = Inr st'
            \<and> assigned st' old = filter (\<lambda>tg. tg \<notin> set (tagsToMove api T new)) T
            \<and> assigned st' new =
                from_set (assigned st new @ filter (\<lambda>tg. \<not> blank tg) (tagsToMove api T new))
            \<and> (\<forall>n. n \<noteq> old \<longrightarrow> n \<noteq> new \<longrightarrow>
                  map_of (profMap st') n = map_of (profMap st) n)"
    using assms(2,4)
    by (simp add: dropdown_relocate[OF assms(1,3,2) ni] assigned_relocate
        map_of_relocate_other Let_def)
  with tagsToMove_eq[OF assms(5), of api T] show ?thesis by (rule conjI)
qed

theorem multi_tag_move_witness:
  "''P2'' \<noteq> [] \<and> ''P1'' \<noteq> ''P2'' \<and> ''P2'' \<notin> set object_prototype_names
   \<and> map_of (profMap st1) ''P1'' = Some (mk_prof ''P1'' [tagA, tagB])
   \<and> tagsToMove api1 [tagA, tagB] ''P2'' = [tagA]
   \<and> (\<exists>st'. dropdownListener api1 st1 ''P1'' [tagA, tagB] ''P2'' = Inr st'
        \<and> assigned st' ''P1'' = [tagB] \<and> assigned st' ''P2'' = [tagA]
        \<and> map_of (profMap st') ''P3'' = Some (mk_prof ''P3'' [tagC]))"
proof -
  have h: "''P2'' \<noteq> []" "''P1'' \<noteq> ''P2''"
    "map_of (profMap st1) ''P1'' = Some (mk_prof ''P1'' [tagA, tagB])"
    "tags (mk_prof ''P1'' [tagA, tagB]) = [tagA, tagB]" "''P2'' \<notin> set object_prototype_names"
    by (simp_all add: listener_eval)
  have e: "tagsToMove api1 [tagA, tagB] ''P2'' = [tagA]" "assigned st1 ''P2'' = []"
    "map_of (profMap st1) ''P3'' = Some (mk_prof ''P3'' [tagC])"
    "\<not> blank tagA" "tagB \<noteq> tagA"
    by (simp_all add: listener_eval)
  from multi_tag_move[OF h, of api1, THEN conjunct2] obtain st' where
    s: "dropdownListener api1 st1 ''P1'' [tagA, tagB] ''P2'' = Inr st'"
    "assigned st' ''P1'' = filter (\<lambda>tg. tg \<notin> set (tagsToMove api1 [tagA, tagB] ''P2'')) [tagA, tagB]"
    "assigned st' ''P2'' = from_set (assigned st1 ''P2'' @ filter (\<lambda>tg. \<not> blank tg) (tagsToMove api1 [tagA, tagB] ''P2''))"
    "\<forall>n. n \<noteq> ''P1'' \<longrightarrow> n \<noteq> ''P2'' \<longrightarrow> map_of (profMap st') n = map_of (profMap st1) n"
    by blast
  have a: "assigned st' ''P1'' = [tagB]"
    unfolding s(2) e(1) using e(5) by simp
  have b: "assigned st' ''P2'' = [tagA]"
    unfolding s(3) e(1) e(2) using e(4) by (simp add: from_set_def set_add_def)
  have c: "map_of (profMap st') ''P3'' = Some (mk_prof ''P3'' [tagC])"
    using s(4)[rule_format, of "''P3''"] by (simp add: e(3))
  show ?thesis
    by (intro conjI exI[of _ st'] h(1) h(2) h(5) h(3) e(1) s(1) a b c)
qed

section \<open>The single-tag move\<close>

lemma order_relocate_split:
  assumes "well_formed st" "map_of (profMap st) old \<noteq> None" "old \<noteq> new"
    "profOrder st = xs @ old # ys"
  shows "profOrder (relocate st old oldP1 new newP3) =
     (if map_of (profMap st) new = None
      then (if tags oldP1 = [] then xs @ new # ys else xs @ old # new # ys)
      else (if tags oldP1 = [] then xs @ ys else xs @ old # ys))"
proof -
  have d: "distinct (xs @ old # ys)" using assms(1,4) by (simp add: well_formed_def)
  then have fx: "filter (\<lambda>n. n \<noteq> old) xs = xs" "filter (\<lambda>n. n \<noteq> old) ys = ys"
    by (auto intro: filter_True)
  have sp: "splice_insert (nat (indexOf (profOrder st) old + 1)) new (profOrder st)
      = xs @ old # new # ys"
    unfolding assms(4) using d by (rule splice_after)
  show ?thesis
    unfolding order_relocate[OF assms(1,2,3)] Let_def sp
    using assms(3) by (simp add: assms(4) fx)
qed

text \<open>
  C6. The claim: a single-tag move takes the tag from the source and adds it to the
  destination. The dropdown of a member with one tag moves that tag, but line 430 drops
  it when it is empty or only whitespace: here the tag of P1 is one space, P2 possesses
  it, P1 is removed and P2 joins the team without it.
\<close>

theorem single_tag_counterexample:
  "possesses api4 ''P2'' (str '' '')
   \<and> map_of (profMap st4) ''P1'' = Some (mk_prof ''P1'' [str '' ''])
   \<and> dropdownListener api4 st4 ''P1'' [str '' ''] ''P2'' =
       Inr \<lparr>profOrder = [''P2''],
            profMap = [(''P2'', \<lparr>name = ''P2'', department = '''', base_url = '''',
                                 position = Some '''', google_scholar_url = Some '''',
                                 tags = []\<rparr>)]\<rparr>"
  by (simp add: listener_eval)

text \<open>
  C6 as amended. Let the source hold the tag and stand in the order between xs and ys,
  and let the destination's name not be a property of \<^verbatim>\<open>Object.prototype\<close>. The swap
  action removes the tag from the source and appends it to the destination's tags; the
  dropdown action of a source with this single tag removes it from the source and adds
  it to the destination's tags when it is not blank, and drops it when it is blank. No
  other entry changes. A destination new to the team is placed immediately after the
  source, and the source leaves the order when no tag is left to it.
\<close>

theorem single_tag_move:
  assumes "well_formed st" "old \<noteq> new" "map_of (profMap st) old = Some oldP"
    "tg \<in> set (tags oldP)" "profOrder st = xs @ old # ys"
    "new \<notin> set object_prototype_names"
  shows "(tags_disjoint st \<longrightarrow>
           (\<exists>st'. swapListener api st new tg = Inr st'
              \<and> assigned st' old = filter (\<lambda>t. t \<noteq> tg) (tags oldP)
              \<and> assigned st' new = assigned st new @ [tg]
              \<and> (\<forall>n. n \<noteq> old \<longrightarrow> n \<noteq> new \<longrightarrow>
                    map_of (profMap st') n = map_of (profMap st) n)
              \<and> profOrder st' =
                  (if map_of (profMap st) new = None
                   then (if filter (\<lambda>t. t \<noteq> tg) (tags oldP) = [] then xs @ new # ys
                         else xs @ old # new # ys)
                   else (if filter (\<lambda>t. t \<noteq> tg) (tags oldP) = [] then xs @ ys
                         else xs @ old # ys))))
      \<and> (new \<noteq> [] \<longrightarrow> tags oldP = [tg] \<longrightarrow>
           (\<exists>st'. dropdownListener api st old [tg] new = Inr st'
              \<and> map_of (profMap st') old = None
              \<and> assigned st' new = from_set (assigned st new @ (if blank tg then [] else [tg]))
              \<and> (\<forall>n. n \<noteq> old \<longrightarrow> n \<noteq> new \<longrightarrow>
                    map_of (profMap st') n = map_of (profMap st) n)
              \<and> profOrder st' =
                  (if map_of (profMap st) new = None then xs @ new # ys else xs @ ys)))"
proof (intro conjI impI)
  have ni: "\<not> inherited (profMap st) new" using assms(6) by (simp add: inherited_def)
  have m: "map_of (profMap st) old \<noteq> None" using assms(3) by simp
  assume td: "tags_disjoint st"
  have f: "find (\<lambda>e. tg \<in> set (tags (snd e))) (profMap st) = Some (old, oldP)"
    using assms(1) td assms(3,4) by (rule find_holder)
  have t: "tags (dest_entry st new (swapProfEntry api tg new)) = assigned st new"
    by (rule tags_dest_entry) simp
  show "\<exists>st'. swapListener api st new tg = Inr st'
          \<and> assigned st' old = filter (\<lambda>t. t \<noteq> tg) (tags oldP)
          \<and> assigned st' new = assigned st new @ [tg]
          \<and> (\<forall>n. n \<noteq> old \<longrightarrow> n \<noteq> new \<longrightarrow> map_of (profMap st') n = map_of (profMap st) n)
          \<and> profOrder st' =
              (if map_of (profMap st) new = None
               then (if filter (\<lambda>t. t \<noteq> tg) (tags oldP) = [] then xs @ new # ys
                     else xs @ old # new # ys)
               else (if filter (\<lambda>t. t \<noteq> tg) (tags oldP) = [] then xs @ ys
                     else xs @ old # ys))"
    unfolding swap_relocate[OF f assms(2) ni]
    using assms(2) t
    by (simp add: Let_def assigned_relocate map_of_relocate_other
        order_relocate_split[OF assms(1) m assms(2,5)])
next
  have ni: "\<not> inherited (profMap st) new" using assms(6) by (simp add: inherited_def)
  have m: "map_of (profMap st) old \<noteq> None" using assms(3) by simp
  assume a: "new \<noteq> []" "tags oldP = [tg]"
  have M: "tagsToMove api [tg] new = [tg]" by (simp add: tagsToMove_single)
  have t: "tags (dest_entry st new (newProfEntry api [tg] new)) = assigned st new"
    by (rule tags_dest_entry) (rule tags_newProfEntry)
  show "\<exists>st'. dropdownListener api st old [tg] new = Inr st'
          \<and> map_of (profMap st') old = None
          \<and> assigned st' new = from_set (assigned st new @ (if blank tg then [] else [tg]))
          \<and> (\<forall>n. n \<noteq> old \<longrightarrow> n \<noteq> new \<longrightarrow> map_of (profMap st') n = map_of (profMap st) n)
          \<and> profOrder st' = (if map_of (profMap st) new = None then xs @ new # ys else xs @ ys)"
    unfolding dropdown_relocate[OF a(1) assms(3,2) ni] M
    using assms(2) t a(2)
    by (simp add: Let_def assigned_relocate map_of_relocate map_of_relocate_other
        order_relocate_split[OF assms(1) m assms(2,5)])
qed

theorem single_tag_move_witness:
  "well_formed st1 \<and> tags_disjoint st1 \<and> ''P1'' \<noteq> ''P2''
   \<and> ''P2'' \<notin> set object_prototype_names
   \<and> map_of (profMap st1) ''P1'' = Some (mk_prof ''P1'' [tagA, tagB])
   \<and> tagA \<in> set (tags (mk_prof ''P1'' [tagA, tagB])) \<and> profOrder st1 = [] @ ''P1'' # [''P3'']
   \<and> (\<exists>st'. swapListener api1 st1 ''P2'' tagA = Inr st'
          \<and> assigned st' ''P1'' = [tagB] \<and> assigned st' ''P2'' = [tagA]
          \<and> profOrder st' = [''P1'', ''P2'', ''P3''])
   \<and> ''P3'' \<noteq> ''P2'' \<and> map_of (profMap st1) ''P3'' = Some (mk_prof ''P3'' [tagC])
   \<and> tagC \<in> set (tags (mk_prof ''P3'' [tagC])) \<and> profOrder st1 = [''P1''] @ ''P3'' # []
   \<and> ''P2'' \<noteq> [] \<and> tags (mk_prof ''P3'' [tagC]) = [tagC] \<and> \<not> blank tagC
   \<and> (\<exists>st'. dropdownListener api1 st1 ''P3'' [tagC] ''P2'' = Inr st'
          \<and> map_of (profMap st') ''P3'' = None \<and> assigned st' ''P2'' = [tagC]
          \<and> profOrder st' = [''P1'', ''P2''])
   \<and> well_formed st4 \<and> map_of (profMap st4) ''P1'' = Some (mk_prof ''P1'' [str '' ''])
   \<and> profOrder st4 = [] @ ''P1'' # [] \<and> blank (str '' '')
   \<and> (\<exists>st'. dropdownListener api4 st4 ''P1'' [str '' ''] ''P2'' = Inr st'
          \<and> map_of (profMap st') ''P1'' = None \<and> assigned st' ''P2'' = []
          \<and> profOrder st' = [''P2''])"
proof -
  have w: "well_formed st1" "tags_disjoint st1"
    by (simp_all add: listener_eval)
  have pl: "''P2'' \<notin> set object_prototype_names" by (simp add: listener_eval)
  have hA: "''P1'' \<noteq> ''P2''"
    "map_of (profMap st1) ''P1'' = Some (mk_prof ''P1'' [tagA, tagB])"
    "tagA \<in> set (tags (mk_prof ''P1'' [tagA, tagB]))" "profOrder st1 = [] @ ''P1'' # [''P3'']"
    by (simp_all add: listener_eval)
  have hB: "''P3'' \<noteq> ''P2''"
    "map_of (profMap st1) ''P3'' = Some (mk_prof ''P3'' [tagC])"
    "tagC \<in> set (tags (mk_prof ''P3'' [tagC]))" "profOrder st1 = [''P1''] @ ''P3'' # []"
    by (simp_all add: listener_eval)
  have gB: "''P2'' \<noteq> []" "tags (mk_prof ''P3'' [tagC]) = [tagC]"
    by (simp_all add: listener_eval)
  have nb: "\<not> blank tagC" by (simp add: listener_eval)
  have e: "assigned st1 ''P2'' = []" "map_of (profMap st1) ''P2'' = None"
    "filter (\<lambda>t. t \<noteq> tagA) (tags (mk_prof ''P1'' [tagA, tagB])) = [tagB]"
    by (simp_all add: listener_eval)
  from single_tag_move[OF w(1) hA pl, of api1, THEN conjunct1, rule_format, OF w(2)]
  obtain sA where sA: "swapListener api1 st1 ''P2'' tagA = Inr sA"
    "assigned sA ''P1'' = filter (\<lambda>t. t \<noteq> tagA) (tags (mk_prof ''P1'' [tagA, tagB]))"
    "assigned sA ''P2'' = assigned st1 ''P2'' @ [tagA]"
    "profOrder sA =
      (if map_of (profMap st1) ''P2'' = None
       then (if filter (\<lambda>t. t \<noteq> tagA) (tags (mk_prof ''P1'' [tagA, tagB])) = []
             then [] @ ''P2'' # [''P3''] else [] @ ''P1'' # ''P2'' # [''P3''])
       else (if filter (\<lambda>t. t \<noteq> tagA) (tags (mk_prof ''P1'' [tagA, tagB])) = []
             then [] @ [''P3''] else [] @ ''P1'' # [''P3'']))"
    by blast
  have A: "\<exists>st'. swapListener api1 st1 ''P2'' tagA = Inr st'
          \<and> assigned st' ''P1'' = [tagB] \<and> assigned st' ''P2'' = [tagA]
          \<and> profOrder st' = [''P1'', ''P2'', ''P3'']"
    apply (rule exI[of _ sA])
    apply (simp only: sA e)
    apply simp
    done
  from single_tag_move[OF w(1) hB pl, of api1, THEN conjunct2, rule_format, OF gB]
  obtain sB where sB: "dropdownListener api1 st1 ''P3'' [tagC] ''P2'' = Inr sB"
    "map_of (profMap sB) ''P3'' = None"
    "assigned sB ''P2'' = from_set (assigned st1 ''P2'' @ (if blank tagC then [] else [tagC]))"
    "profOrder sB = (if map_of (profMap st1) ''P2'' = None then [''P1''] @ ''P2'' # [] else [''P1''] @ [])"
    by blast
  have B: "\<exists>st'. dropdownListener api1 st1 ''P3'' [tagC] ''P2'' = Inr st'
          \<and> map_of (profMap st') ''P3'' = None \<and> assigned st' ''P2'' = [tagC]
          \<and> profOrder st' = [''P1'', ''P2'']"
    apply (rule exI[of _ sB])
    apply (simp only: sB e nb if_False)
    apply (simp add: from_set_def set_add_def)
    done
  have w4: "well_formed st4" by (simp add: listener_eval)
  have hC: "''P1'' \<noteq> ''P2''" "map_of (profMap st4) ''P1'' = Some (mk_prof ''P1'' [str '' ''])"
    "str '' '' \<in> set (tags (mk_prof ''P1'' [str '' '']))" "profOrder st4 = [] @ ''P1'' # []"
    by (simp_all add: listener_eval)
  have gC: "''P2'' \<noteq> []" "tags (mk_prof ''P1'' [str '' '']) = [str '' '']"
    by (simp_all add: listener_eval)
  have bl: "blank (str '' '')" by (simp add: listener_eval)
  have e4: "assigned st4 ''P2'' = []" "map_of (profMap st4) ''P2'' = None"
    by (simp_all add: listener_eval)
  from single_tag_move[OF w4 hC pl, of api4, THEN conjunct2, rule_format, OF gC]
  obtain sC where sC: "dropdownListener api4 st4 ''P1'' [str '' ''] ''P2'' = Inr sC"
    "map_of (profMap sC) ''P1'' = None"
    "assigned sC ''P2'' = from_set (assigned st4 ''P2'' @ (if blank (str '' '') then [] else [str '' '']))"
    "profOrder sC = (if map_of (profMap st4) ''P2'' = None then [] @ ''P2'' # [] else [] @ [])"
    by blast
  have C: "\<exists>st'. dropdownListener api4 st4 ''P1'' [str '' ''] ''P2'' = Inr st'
          \<and> map_of (profMap st') ''P1'' = None \<and> assigned st' ''P2'' = []
          \<and> profOrder st' = [''P2'']"
    apply (rule exI[of _ sC])
    apply (simp only: sC e4 bl if_True)
    apply (simp add: from_set_def)
    done
  show ?thesis
    by (intro conjI w pl hA hB gB nb A B w4 hC(2) hC(4) bl C)
qed

section \<open>Members without tags\<close>

text \<open>
  C2. The claim: after every reassignment every member has a tag, a destination left
  with no tag being removed like the source. Only the source is ever removed (lines
  361-364 and 433-436). Here the dropdown of P1 offers P2, who possesses only the empty
  tag; nothing is moved, and P2 joins the team with no tag.
\<close>

theorem empty_destination_counterexample:
  "members_nonempty st2 \<and> well_formed st2 \<and> possesses api5 ''P2'' []
   \<and> ''P2'' \<in> set (dropdownOptions api5 st2 ''P1'')
   \<and> map_of (profMap st2) ''P1'' = Some (mk_prof ''P1'' [[], tagA])
   \<and> dropdownListener api5 st2 ''P1'' [[], tagA] ''P2'' =
       Inr \<lparr>profOrder = [''P1'', ''P2''],
            profMap = [(''P1'', mk_prof ''P1'' [[], tagA]),
                       (''P2'', \<lparr>name = ''P2'', department = '''', base_url = '''',
                                 position = Some '''', google_scholar_url = Some '''',
                                 tags = []\<rparr>)]\<rparr>
   \<and> \<not> members_nonempty
         \<lparr>profOrder = [''P1'', ''P2''],
          profMap = [(''P1'', mk_prof ''P1'' [[], tagA]),
                     (''P2'', \<lparr>name = ''P2'', department = '''', base_url = '''',
                               position = Some '''', google_scholar_url = Some '''',
                               tags = []\<rparr>)]\<rparr>"
  by (simp add: listener_eval)

lemma members_nonempty_relocate:
  assumes "well_formed st" "members_nonempty st" "map_of (profMap st) old \<noteq> None" "old \<noteq> new"
    "tags newP3 \<noteq> []"
  shows "members_nonempty (relocate st old oldP1 new newP3)"
proof -
  have w: "well_formed (relocate st old oldP1 new newP3)"
    using assms(1,3,4) by (rule well_formed_relocate)
  show ?thesis
    unfolding members_nonempty_iff[OF w]
    using assms(2,4,5)
    by (auto simp: members_nonempty_iff[OF assms(1)] map_of_relocate split: if_splits)
qed

lemma members_nonempty_withdraw:
  assumes "well_formed st" "members_nonempty st" "map_of (profMap st) old \<noteq> None"
  shows "members_nonempty (withdraw st old oldP1)"
proof -
  have w: "well_formed (withdraw st old oldP1)"
    using assms(1,3) by (rule well_formed_withdraw)
  show ?thesis
    unfolding members_nonempty_iff[OF w]
    using assms(2)
    by (auto simp: members_nonempty_iff[OF assms(1)] map_of_withdraw split: if_splits)
qed

lemma swap_nonempty:
  assumes "well_formed st" "members_nonempty st"
  shows "\<exists>st'. swapListener api st new tg = Inr st' \<and> members_nonempty st'"
proof (cases "find (\<lambda>e. tg \<in> set (tags (snd e))) (profMap st)")
  case None
  then show ?thesis using assms(2) by (simp add: swap_noop)
next
  case (Some e)
  obtain k c where e: "e = (k, c)" by (cases e)
  from Some e have f: "find (\<lambda>e. tg \<in> set (tags (snd e))) (profMap st) = Some (k, c)" by simp
  have m: "map_of (profMap st) k \<noteq> None"
    using find_holder_Some[OF f] assms(1) by (auto simp: well_formed_def)
  show ?thesis
  proof (cases "k = new")
    case True
    with f show ?thesis using assms(2) by (simp add: swap_noop)
  next
    case False
    show ?thesis
    proof (cases "inherited (profMap st) new")
      case True
      show ?thesis
        unfolding swap_withdraw[OF f True]
        using members_nonempty_withdraw[OF assms m] by simp
    next
      case ni: False
      show ?thesis
        unfolding swap_relocate[OF f False ni]
        using members_nonempty_relocate[OF assms m False] by (simp add: Let_def)
    qed
  qed
qed

text \<open>
  C2 as amended. From a well-formed state in which every member has a tag the swap
  action always leads to such a state. For a source that holds the tag, or the tags
  passed, and a different destination whose name is not a property of
  \<^verbatim>\<open>Object.prototype\<close>: the source is removed exactly when it is left with no tag, and
  the destination is a member afterwards, so a destination is never removed. After the
  dropdown action every member has a tag when the destination was already a member or a
  tag that is not blank is moved; a destination new to the team for which every moved
  tag is blank stays on the team with no tag.
\<close>

theorem members_nonempty_kept:
  assumes "well_formed st" "members_nonempty st"
  shows "(\<exists>st'. swapListener api st new tg = Inr st' \<and> members_nonempty st')
      \<and> (old \<noteq> new \<longrightarrow> new \<notin> set object_prototype_names \<longrightarrow>
           map_of (profMap st) old = Some oldP \<longrightarrow>
           (tags_disjoint st \<longrightarrow> tg \<in> set (tags oldP) \<longrightarrow>
              (\<exists>st'. swapListener api st new tg = Inr st'
                 \<and> map_of (profMap st') new \<noteq> None
                 \<and> (map_of (profMap st') old = None \<longleftrightarrow>
                      filter (\<lambda>t. t \<noteq> tg) (tags oldP) = [])))
           \<and> (new \<noteq> [] \<longrightarrow>
              (\<exists>st'. dropdownListener api st old T new = Inr st'
                 \<and> map_of (profMap st') new \<noteq> None
                 \<and> (map_of (profMap st') old = None \<longleftrightarrow>
                      filter (\<lambda>t. t \<notin> set (tagsToMove api T new)) (tags oldP) = [])
                 \<and> (map_of (profMap st) new \<noteq> None
                        \<or> (\<exists>t\<in>set (tagsToMove api T new). \<not> blank t) \<longrightarrow>
                      members_nonempty st')
                 \<and> (map_of (profMap st) new = None \<longrightarrow>
                      (\<forall>t\<in>set (tagsToMove api T new). blank t) \<longrightarrow>
                      assigned st' new = []))))"
proof (intro conjI impI)
  show "\<exists>st'. swapListener api st new tg = Inr st' \<and> members_nonempty st'"
    using assms by (rule swap_nonempty)
next
  assume on: "old \<noteq> new" and pl: "new \<notin> set object_prototype_names"
    and o: "map_of (profMap st) old = Some oldP"
    and td: "tags_disjoint st" and tg: "tg \<in> set (tags oldP)"
  have ni: "\<not> inherited (profMap st) new" using pl by (simp add: inherited_def)
  have f: "find (\<lambda>e. tg \<in> set (tags (snd e))) (profMap st) = Some (old, oldP)"
    using assms(1) td o tg by (rule find_holder)
  show "\<exists>st'. swapListener api st new tg = Inr st'
          \<and> map_of (profMap st') new \<noteq> None
          \<and> (map_of (profMap st') old = None \<longleftrightarrow> filter (\<lambda>t. t \<noteq> tg) (tags oldP) = [])"
    unfolding swap_relocate[OF f on ni]
    using on by (simp add: Let_def map_of_relocate)
next
  assume on: "old \<noteq> new" and pl: "new \<notin> set object_prototype_names"
    and o: "map_of (profMap st) old = Some oldP" and nn: "new \<noteq> []"
  have ni: "\<not> inherited (profMap st) new" using pl by (simp add: inherited_def)
  have m: "map_of (profMap st) old \<noteq> None" using o by simp
  let ?M = "tagsToMove api T new"
  let ?newP = "dest_entry st new (newProfEntry api ?M new)"
  let ?new3 = "?newP\<lparr>tags := from_set (tags ?newP @ filter (\<lambda>tg. \<not> blank tg) ?M)\<rparr>"
  let ?old1 = "oldP\<lparr>tags := filter (\<lambda>tg. tg \<notin> set ?M) (tags oldP)\<rparr>"
  let ?r = "relocate st old ?old1 new ?new3"
  have t: "tags ?newP = assigned st new" by (rule tags_dest_entry) (rule tags_newProfEntry)
  have r: "dropdownListener api st old T new = Inr ?r"
    using dropdown_relocate[OF nn o on ni, of api T] by (simp add: Let_def)
  have c1: "map_of (profMap ?r) new \<noteq> None" using on by (simp add: map_of_relocate)
  have c2: "map_of (profMap ?r) old = None \<longleftrightarrow> filter (\<lambda>t. t \<notin> set ?M) (tags oldP) = []"
    using on by (simp add: map_of_relocate)
  have c3: "members_nonempty ?r"
    if h: "map_of (profMap st) new \<noteq> None \<or> (\<exists>t\<in>set ?M. \<not> blank t)"
  proof -
    have X: "tags ?newP @ filter (\<lambda>tg. \<not> blank tg) ?M \<noteq> []"
    proof (cases "map_of (profMap st) new")
      case None
      with h show ?thesis by (auto simp: filter_empty_conv)
    next
      case (Some q)
      then have "(new, q) \<in> set (profMap st)" using assms(1) by (simp add: well_formed_entry_iff)
      then have "tags q \<noteq> []" using assms(2) by (auto simp: members_nonempty_def list_all_iff)
      with Some show ?thesis by (simp add: dest_entry_def)
    qed
    have "from_set (tags ?newP @ filter (\<lambda>tg. \<not> blank tg) ?M) \<noteq> []"
    proof
      assume "from_set (tags ?newP @ filter (\<lambda>tg. \<not> blank tg) ?M) = []"
      then have "set (from_set (tags ?newP @ filter (\<lambda>tg. \<not> blank tg) ?M)) = {}"
        by (simp only: set_simps)
      then have "set (tags ?newP @ filter (\<lambda>tg. \<not> blank tg) ?M) = {}"
        by (simp only: set_from_set)
      with X show False by (simp only: set_empty)
    qed
    then have ne: "tags ?new3 \<noteq> []" by simp
    show ?thesis using assms m on ne by (rule members_nonempty_relocate)
  qed
  have c4: "assigned ?r new = []"
    if "map_of (profMap st) new = None" "\<forall>t\<in>set ?M. blank t"
  proof -
    have "filter (\<lambda>tg. \<not> blank tg) ?M = []" using that(2) by (simp add: filter_empty_conv)
    moreover have "assigned st new = []" using that(1) by (simp add: assigned_def)
    ultimately show ?thesis using on t by (simp add: assigned_relocate from_set_def)
  qed
  show "\<exists>st'. dropdownListener api st old T new = Inr st'
          \<and> map_of (profMap st') new \<noteq> None
          \<and> (map_of (profMap st') old = None \<longleftrightarrow>
               filter (\<lambda>t. t \<notin> set (tagsToMove api T new)) (tags oldP) = [])
          \<and> (map_of (profMap st) new \<noteq> None
                 \<or> (\<exists>t\<in>set (tagsToMove api T new). \<not> blank t) \<longrightarrow>
               members_nonempty st')
          \<and> (map_of (profMap st) new = None \<longrightarrow>
               (\<forall>t\<in>set (tagsToMove api T new). blank t) \<longrightarrow>
               assigned st' new = [])"
    using c3 c4 by (intro exI[of _ ?r] conjI r c1 c2 impI) blast+
qed

theorem members_nonempty_kept_witness:
  "well_formed st6 \<and> members_nonempty st6 \<and> tags_disjoint st6 \<and> ''P1'' \<noteq> ''P2''
   \<and> ''P2'' \<notin> set object_prototype_names
   \<and> map_of (profMap st6) ''P1'' = Some (mk_prof ''P1'' [tagA])
   \<and> tagA \<in> set (tags (mk_prof ''P1'' [tagA])) \<and> ''P2'' \<noteq> []
   \<and> (\<exists>st'. swapListener api1 st6 ''P2'' tagA = Inr st' \<and> members_nonempty st'
          \<and> map_of (profMap st') ''P2'' \<noteq> None \<and> map_of (profMap st') ''P1'' = None)
   \<and> (\<exists>st'. dropdownListener api1 st6 ''P1'' [tagA] ''P2'' = Inr st'
          \<and> map_of (profMap st') ''P2'' \<noteq> None \<and> map_of (profMap st') ''P1'' = None
          \<and> members_nonempty st')
   \<and> well_formed st4 \<and> members_nonempty st4
   \<and> map_of (profMap st4) ''P1'' = Some (mk_prof ''P1'' [str '' ''])
   \<and> (\<exists>st'. dropdownListener api4 st4 ''P1'' [str '' ''] ''P2'' = Inr st'
          \<and> map_of (profMap st') ''P2'' \<noteq> None \<and> map_of (profMap st') ''P1'' = None
          \<and> assigned st' ''P2'' = [])"
proof -
  have w: "well_formed st6" "members_nonempty st6" by (simp_all add: listener_eval)
  have td: "tags_disjoint st6" by (simp add: listener_eval)
  have h: "''P1'' \<noteq> ''P2''" "''P2'' \<notin> set object_prototype_names"
    "map_of (profMap st6) ''P1'' = Some (mk_prof ''P1'' [tagA])"
    by (simp_all add: listener_eval)
  have g: "tagA \<in> set (tags (mk_prof ''P1'' [tagA]))" "''P2'' \<noteq> []"
    by (simp_all add: listener_eval)
  have w4: "well_formed st4" "members_nonempty st4" by (simp_all add: listener_eval)
  have h4: "map_of (profMap st4) ''P1'' = Some (mk_prof ''P1'' [str '' ''])"
    by (simp add: listener_eval)
  have e: "filter (\<lambda>t. t \<noteq> tagA) (tags (mk_prof ''P1'' [tagA])) = []"
    "tagsToMove api1 [tagA] ''P2'' = [tagA]" "\<not> blank tagA"
    "tagsToMove api4 [str '' ''] ''P2'' = [str '' '']" "blank (str '' '')"
    "map_of (profMap st4) ''P2'' = None"
    by (simp_all add: listener_eval)
  note A = members_nonempty_kept[OF w, of api1 "''P2''" tagA "''P1''" "mk_prof ''P1'' [tagA]" "[tagA]"]
  note B = members_nonempty_kept[OF w4, of api4 "''P2''" "str '' ''" "''P1''"
      "mk_prof ''P1'' [str '' '']" "[str '' '']"]
  from A[THEN conjunct1] obtain s0 where s0: "swapListener api1 st6 ''P2'' tagA = Inr s0"
    "members_nonempty s0" by blast
  from A[THEN conjunct2, rule_format, OF h, THEN conjunct1, rule_format, OF td g(1)]
  obtain s1 where s1: "swapListener api1 st6 ''P2'' tagA = Inr s1"
    "map_of (profMap s1) ''P2'' \<noteq> None"
    "map_of (profMap s1) ''P1'' = None \<longleftrightarrow>
       filter (\<lambda>t. t \<noteq> tagA) (tags (mk_prof ''P1'' [tagA])) = []"
    by (elim exE conjE) (rule that; assumption)
  have eq: "s0 = s1" using s0(1) s1(1) by simp
  have S: "\<exists>st'. swapListener api1 st6 ''P2'' tagA = Inr st' \<and> members_nonempty st'
          \<and> map_of (profMap st') ''P2'' \<noteq> None \<and> map_of (profMap st') ''P1'' = None"
    using s0 s1 e(1) unfolding eq by (intro exI[of _ s1] conjI) simp_all
  from A[THEN conjunct2, rule_format, OF h, THEN conjunct2, rule_format, OF g(2)]
  obtain s2 where s2: "dropdownListener api1 st6 ''P1'' [tagA] ''P2'' = Inr s2"
    "map_of (profMap s2) ''P2'' \<noteq> None"
    "map_of (profMap s2) ''P1'' = None \<longleftrightarrow>
       filter (\<lambda>t. t \<notin> set (tagsToMove api1 [tagA] ''P2'')) (tags (mk_prof ''P1'' [tagA])) = []"
    "map_of (profMap st6) ''P2'' \<noteq> None \<or> (\<exists>t\<in>set (tagsToMove api1 [tagA] ''P2''). \<not> blank t)
       \<longrightarrow> members_nonempty s2"
    by (elim exE conjE) (rule that; assumption)
  have m2: "members_nonempty s2" using s2(4) e(2,3) by simp
  have r2: "map_of (profMap s2) ''P1'' = None" using s2(3) e(2) by (simp add: mk_prof_def)
  have D: "\<exists>st'. dropdownListener api1 st6 ''P1'' [tagA] ''P2'' = Inr st'
          \<and> map_of (profMap st') ''P2'' \<noteq> None \<and> map_of (profMap st') ''P1'' = None
          \<and> members_nonempty st'"
    by (intro exI[of _ s2] conjI s2(1) s2(2) r2 m2)
  from B[THEN conjunct2, rule_format, OF h(1,2) h4, THEN conjunct2, rule_format, OF g(2)]
  obtain s3 where s3: "dropdownListener api4 st4 ''P1'' [str '' ''] ''P2'' = Inr s3"
    "map_of (profMap s3) ''P2'' \<noteq> None"
    "map_of (profMap s3) ''P1'' = None \<longleftrightarrow>
       filter (\<lambda>t. t \<notin> set (tagsToMove api4 [str '' ''] ''P2''))
         (tags (mk_prof ''P1'' [str '' ''])) = []"
    "map_of (profMap st4) ''P2'' = None \<longrightarrow>
       (\<forall>t\<in>set (tagsToMove api4 [str '' ''] ''P2''). blank t) \<longrightarrow> assigned s3 ''P2'' = []"
    by (elim exE conjE) (rule that; assumption)
  have a3: "assigned s3 ''P2'' = []" using s3(4) e(4,5,6) by simp
  have r3: "map_of (profMap s3) ''P1'' = None" using s3(3) e(4) by (simp add: mk_prof_def)
  have E: "\<exists>st'. dropdownListener api4 st4 ''P1'' [str '' ''] ''P2'' = Inr st'
          \<and> map_of (profMap st') ''P2'' \<noteq> None \<and> map_of (profMap st') ''P1'' = None
          \<and> assigned st' ''P2'' = []"
    by (intro exI[of _ s3] conjI s3(1) s3(2) r3 a3)
  show ?thesis by (intro conjI w td h g S D w4 h4 E)
qed

section \<open>C4: a repeated move\<close>







section \<open>C5: the order of the members\<close>

lemma swap_stable:
  assumes "well_formed st"
  shows "\<exists>st'. swapListener api st new tg = Inr st' \<and> well_formed st'
           \<and> order_stable (profOrder st) (profOrder st')"
proof (cases "find (\<lambda>e. tg \<in> set (tags (snd e))) (profMap st)")
  case None
  then show ?thesis using assms by (simp add: swap_noop order_stable_refl)
next
  case (Some e)
  obtain k c where e: "e = (k, c)" by (cases e)
  with Some have f: "find (\<lambda>e. tg \<in> set (tags (snd e))) (profMap st) = Some (k, c)" by simp
  show ?thesis
  proof (cases "k = new")
    case True
    with f show ?thesis using assms by (simp add: swap_noop order_stable_refl)
  next
    case False
    have m: "map_of (profMap st) k \<noteq> None"
      using find_holder_Some[OF f] assms by (auto simp: well_formed_def)
    show ?thesis
    proof (cases "inherited (profMap st) new")
      case True
      show ?thesis
        unfolding swap_withdraw[OF f True]
        using well_formed_withdraw[OF assms m] order_stable_withdraw[OF assms]
        by simp
    next
      case ni: False
      show ?thesis
        unfolding swap_relocate[OF f False ni]
        using well_formed_relocate[OF assms m False] order_stable_relocate[OF assms m False]
        by (simp add: Let_def)
    qed
  qed
qed

lemma dropdown_self_stable:
  assumes "well_formed st" "map_of (profMap st) new \<noteq> None"
  shows "\<exists>st'. dropdownListener api st new T new = Inr st' \<and> well_formed st'
           \<and> order_stable (profOrder st) (profOrder st')"
proof (cases "new = []")
  case True
  then show ?thesis using assms(1) by (simp add: dropdownListener_def order_stable_refl)
next
  case False
  from assms(2) obtain p where p: "map_of (profMap st) new = Some p" by auto
  have d: "distinct (profOrder st)" using assms(1) by (simp add: well_formed_def)
  show ?thesis
    unfolding dropdown_self[OF False p] Let_def
    using well_formed_update_member[OF assms] well_formed_delete_member[OF assms(1)]
      order_stable_remove[OF d]
    by (simp add: dedupe_distinct_id[OF d] order_stable_refl)
qed

lemma dropdown_stable:
  assumes "well_formed st" "map_of (profMap st) old \<noteq> None"
  shows "\<exists>st'. dropdownListener api st old T new = Inr st' \<and> well_formed st'
           \<and> order_stable (profOrder st) (profOrder st')"
proof (cases "old = new")
  case True
  then show ?thesis using dropdown_self_stable[OF assms(1), of new api T] assms(2) by simp
next
  case on: False
  show ?thesis
  proof (cases "new = []")
    case True
    then show ?thesis using assms(1) by (simp add: dropdownListener_def order_stable_refl)
  next
    case False
    from assms(2) obtain oldP where o: "map_of (profMap st) old = Some oldP" by auto
    show ?thesis
    proof (cases "inherited (profMap st) new")
      case True
      show ?thesis
        unfolding dropdown_withdraw[OF False o True]
        using well_formed_withdraw[OF assms] order_stable_withdraw[OF assms(1)]
        by simp
    next
      case ni: False
      show ?thesis
        unfolding dropdown_relocate[OF False o on ni]
        using well_formed_relocate[OF assms(1,2) on] order_stable_relocate[OF assms(1,2) on]
        by (simp add: Let_def)
    qed
  qed
qed

lemma init_team_order:
  assumes "init_team team = Inr st0"
  shows "well_formed st0 \<and> profOrder st0 = from_set (map name team)"
  using well_formed_team_loop[OF well_formed_empty assms[unfolded init_team_def]]
    order_team_loop[OF well_formed_empty assms[unfolded init_team_def]]
  by (simp add: from_set_def)

lemma apply_transition_well_formed:
  assumes "well_formed st" "apply_transition api t st = Inr s"
  shows "well_formed s"
proof (cases t)
  case (Swap n tg)
  from swap_stable[OF assms(1), of api n tg] assms(2) Swap show ?thesis by auto
next
  case (Select old T new)
  show ?thesis
  proof (cases "new = []")
    case True
    with assms Select show ?thesis by (simp add: dropdownListener_def)
  next
    case False
    from assms(2) Select have r: "dropdownListener api st old T new = Inr s" by simp
    from dropdown_Inr_member[OF False r] have "map_of (profMap st) old \<noteq> None" by auto
    from dropdown_stable[OF assms(1) this, of api T new] r show ?thesis by auto
  qed
qed

lemma run_well_formed:
  "well_formed st \<Longrightarrow> run api ts st = Inr s \<Longrightarrow> well_formed s"
proof (induction ts arbitrary: st)
  case Nil
  then show ?case by simp
next
  case (Cons t ts)
  from Cons.prems(2) obtain s1 where s1: "apply_transition api t st = Inr s1"
    "run api ts s1 = Inr s"
    by (cases "apply_transition api t st") auto
  from apply_transition_well_formed[OF Cons.prems(1) s1(1)] s1(2) show ?case
    by (rule Cons.IH)
qed

lemma indexOf_nonneg: "a \<in> set xs \<Longrightarrow> 0 \<le> indexOf xs a"
  by (induction xs) (auto simp: Let_def)

lemma indexOf_neg_iff: "indexOf xs a < 0 \<longleftrightarrow> a \<notin> set xs"
  using indexOf_nonneg[of a xs] indexOf_notin[of a xs] by fastforce

lemma indexOf_filter_less:
  "P a \<Longrightarrow> P b \<Longrightarrow> a \<in> set xs \<Longrightarrow> b \<in> set xs \<Longrightarrow>
     (indexOf (filter P xs) a < indexOf (filter P xs) b) = (indexOf xs a < indexOf xs b)"
proof (induction xs)
  case Nil
  then show ?case by simp
next
  case (Cons x xs)
  have nn: "0 \<le> indexOf xs c \<and> 0 \<le> indexOf (filter P xs) c" if "c \<in> set xs" "P c" for c
    using that by (simp add: indexOf_nonneg)
  show ?case
  proof (cases "a = b")
    case True
    then show ?thesis by simp
  next
    case ab: False
    show ?thesis
    proof (cases "x = a")
      case True
      with ab Cons.prems have "b \<in> set xs" by auto
      from nn[OF this Cons.prems(2)] True ab Cons.prems(1) show ?thesis
        by (simp add: Let_def)
    next
      case xa: False
      then have a: "a \<in> set xs" using Cons.prems by auto
      show ?thesis
      proof (cases "x = b")
        case True
        from nn[OF a Cons.prems(1)] True ab Cons.prems(2) show ?thesis
          by (simp add: Let_def)
      next
        case xb: False
        then have b: "b \<in> set xs" using Cons.prems by auto
        have IH: "(indexOf (filter P xs) a < indexOf (filter P xs) b) = (indexOf xs a < indexOf xs b)"
          using Cons.IH[OF Cons.prems(1,2) a b] .
        show ?thesis using xa xb IH nn[OF a Cons.prems(1)] nn[OF b Cons.prems(2)]
          by (auto simp: Let_def)
      qed
    qed
  qed
qed

lemma order_stable_comes_before:
  assumes "order_stable po po'" "a \<in> set po" "b \<in> set po" "a \<in> set po'" "b \<in> set po'"
  shows "comes_before a b po \<longleftrightarrow> comes_before a b po'"
proof -
  have e: "filter (\<lambda>n. n \<in> set po) po' = filter (\<lambda>n. n \<in> set po') po"
    using assms(1) by (simp add: order_stable_def)
  have "(indexOf po a < indexOf po b) = (indexOf (filter (\<lambda>n. n \<in> set po') po) a < indexOf (filter (\<lambda>n. n \<in> set po') po) b)"
    using indexOf_filter_less[of "\<lambda>n. n \<in> set po'" a b po] assms by simp
  also have "\<dots> = (indexOf (filter (\<lambda>n. n \<in> set po) po') a < indexOf (filter (\<lambda>n. n \<in> set po) po') b)"
    by (simp only: e)
  also have "\<dots> = (indexOf po' a < indexOf po' b)"
    using indexOf_filter_less[of "\<lambda>n. n \<in> set po" a b po'] assms by simp
  finally show ?thesis using assms by (simp add: comes_before_def)
qed

lemma apply_transition_stable:
  assumes "well_formed st" "apply_transition api t st = Inr s"
  shows "well_formed s \<and> order_stable (profOrder st) (profOrder s)"
proof (cases t)
  case (Swap n tg)
  from swap_stable[OF assms(1), of api n tg] assms(2) Swap show ?thesis by auto
next
  case (Select old T new)
  show ?thesis
  proof (cases "new = []")
    case True
    with assms Select show ?thesis by (simp add: dropdownListener_def order_stable_refl)
  next
    case False
    from assms(2) Select have r: "dropdownListener api st old T new = Inr s" by simp
    from dropdown_Inr_member[OF False r] have "map_of (profMap st) old \<noteq> None" by auto
    from dropdown_stable[OF assms(1) this, of api T new] r show ?thesis by auto
  qed
qed

lemma stays_first: "stays a api ts st \<Longrightarrow> a \<in> set (profOrder st)"
  by (cases ts) simp_all

lemma run_comes_before:
  "well_formed st \<Longrightarrow> stays a api ts st \<Longrightarrow> stays b api ts st \<Longrightarrow> run api ts st = Inr s \<Longrightarrow>
     comes_before a b (profOrder s) = comes_before a b (profOrder st)"
proof (induction ts arbitrary: st)
  case Nil
  then show ?case by simp
next
  case (Cons t ts)
  from Cons.prems(4) obtain s1 where s1: "apply_transition api t st = Inr s1"
    "run api ts s1 = Inr s"
    by (cases "apply_transition api t st") auto
  from Cons.prems(2,3) s1(1) have st: "a \<in> set (profOrder st)" "b \<in> set (profOrder st)"
    "stays a api ts s1" "stays b api ts s1" by simp_all
  note w = apply_transition_stable[OF Cons.prems(1) s1(1)]
  have "comes_before a b (profOrder s) = comes_before a b (profOrder s1)"
    using w[THEN conjunct1] st(3,4) s1(2) by (rule Cons.IH)
  also have "\<dots> = comes_before a b (profOrder st)"
    using order_stable_comes_before[OF w[THEN conjunct2] st(1,2) stays_first[OF st(3)] stays_first[OF st(4)]]
    by simp
  finally show ?case .
qed

text \<open>
  C5. The claim: a member's position is fixed when it is first introduced and kept by
  every later reassignment. A member that loses its last tag leaves the order, and when
  it is introduced again it is placed after the source of that move. Here the tag table
  lists P1 and P2 under \<^verbatim>\<open>ai\<close> and \<^verbatim>\<open>bio\<close>, so it offers the three swaps: after the
  first the order is P1, P2, P3, after the third it is P2, P1, P3.
\<close>

theorem member_order_counterexample:
  "init_team team1 = Inr st1 \<and> profOrder st1 = [''P1'', ''P3'']
   \<and> possesses api9 ''P2'' tagA \<and> possesses api9 ''P2'' tagB \<and> possesses api9 ''P1'' tagA
   \<and> run api9 [Swap ''P2'' tagA] st1 =
       Inr \<lparr>profOrder = [''P1'', ''P2'', ''P3''],
            profMap = [(''P1'', mk_prof ''P1'' [tagB]), (''P3'', mk_prof ''P3'' [tagC]),
                       (''P2'', (mk_prof ''P2'' [tagA])\<lparr>position := None,
                                  google_scholar_url := None\<rparr>)]\<rparr>
   \<and> run api9 [Swap ''P2'' tagA, Swap ''P2'' tagB] st1 =
       Inr \<lparr>profOrder = [''P2'', ''P3''],
            profMap = [(''P3'', mk_prof ''P3'' [tagC]),
                       (''P2'', (mk_prof ''P2'' [tagA, tagB])\<lparr>position := None,
                                  google_scholar_url := None\<rparr>)]\<rparr>
   \<and> run api9 [Swap ''P2'' tagA, Swap ''P2'' tagB, Swap ''P1'' tagA] st1 =
       Inr \<lparr>profOrder = [''P2'', ''P1'', ''P3''],
            profMap = [(''P3'', mk_prof ''P3'' [tagC]),
                       (''P2'', (mk_prof ''P2'' [tagB])\<lparr>position := None,
                                  google_scholar_url := None\<rparr>),
                       (''P1'', (mk_prof ''P1'' [tagA])\<lparr>position := None,
                                  google_scholar_url := None\<rparr>)]\<rparr>
   \<and> \<not> order_stable [''P1'', ''P2'', ''P3''] [''P2'', ''P1'', ''P3'']"
  by (simp add: listener_eval)

text \<open>
  C5 as amended. The initial order lists the names of the API's team list in the order
  of their first occurrence, each once. From a well-formed state (the order lists
  exactly the members, each once) every swap, and every dropdown reassignment whose
  source is a member, leads to a well-formed state in which the members present before
  and after stand in the same relative order. Every sequence of events that raises no
  exception ends in a well-formed state, and two members that are on the team before
  and after each of its events stand in the same relative order at its end as at its
  start; a position is not kept across a removal. The same sequence of events from the
  same state gives the same result.
\<close>

theorem member_order_stable:
  "(init_team team = Inr st0 \<longrightarrow> well_formed st0 \<and> profOrder st0 = from_set (map name team))
   \<and> (well_formed st \<longrightarrow>
        (\<exists>st'. swapListener api st new tg = Inr st' \<and> well_formed st'
           \<and> order_stable (profOrder st) (profOrder st'))
        \<and> (map_of (profMap st) old \<noteq> None \<longrightarrow>
             (\<exists>st'. dropdownListener api st old T new = Inr st' \<and> well_formed st'
                \<and> order_stable (profOrder st) (profOrder st')))
        \<and> (run api ts st = Inr s \<longrightarrow>
             well_formed s
             \<and> (stays a api ts st \<longrightarrow> stays b api ts st \<longrightarrow>
                  comes_before a b (profOrder s) = comes_before a b (profOrder st))))
   \<and> (run api ts st = r1 \<longrightarrow> run api ts st = r2 \<longrightarrow> r1 = r2)"
proof (intro conjI impI)
  assume "init_team team = Inr st0"
  then show "well_formed st0" using init_team_order by blast
next
  assume "init_team team = Inr st0"
  then show "profOrder st0 = from_set (map name team)" using init_team_order by blast
next
  assume "well_formed st"
  then show "\<exists>st'. swapListener api st new tg = Inr st' \<and> well_formed st'
           \<and> order_stable (profOrder st) (profOrder st')"
    by (rule swap_stable)
next
  assume "well_formed st" "map_of (profMap st) old \<noteq> None"
  then show "\<exists>st'. dropdownListener api st old T new = Inr st' \<and> well_formed st'
           \<and> order_stable (profOrder st) (profOrder st')"
    by (rule dropdown_stable)
next
  assume "well_formed st" "run api ts st = Inr s"
  then show "well_formed s" by (rule run_well_formed)
next
  assume "well_formed st" "run api ts st = Inr s" "stays a api ts st" "stays b api ts st"
  then show "comes_before a b (profOrder s) = comes_before a b (profOrder st)"
    by (intro run_comes_before)
next
  assume "run api ts st = r1" "run api ts st = r2"
  then show "r1 = r2" by simp
qed

theorem member_order_stable_witness:
  "init_team team1 = Inr st1 \<and> well_formed st1 \<and> profOrder st1 = from_set (map name team1)
   \<and> from_set (map name team1) = [''P1'', ''P3'']
   \<and> (\<exists>st'. swapListener api9 st1 ''P2'' tagA = Inr st' \<and> well_formed st'
          \<and> order_stable (profOrder st1) (profOrder st'))
   \<and> map_of (profMap st1) ''P1'' \<noteq> None
   \<and> (\<exists>st'. dropdownListener api9 st1 ''P1'' [tagA, tagB] ''P2'' = Inr st' \<and> well_formed st'
          \<and> order_stable (profOrder st1) (profOrder st'))
   \<and> run api9 [Swap ''P2'' tagA, Swap ''P1'' tagA] st1 =
       Inr \<lparr>profOrder = [''P1'', ''P3''],
            profMap = [(''P1'', mk_prof ''P1'' [tagB, tagA]), (''P3'', mk_prof ''P3'' [tagC])]\<rparr>
   \<and> well_formed \<lparr>profOrder = [''P1'', ''P3''],
            profMap = [(''P1'', mk_prof ''P1'' [tagB, tagA]), (''P3'', mk_prof ''P3'' [tagC])]\<rparr>
   \<and> stays ''P1'' api9 [Swap ''P2'' tagA, Swap ''P1'' tagA] st1
   \<and> stays ''P3'' api9 [Swap ''P2'' tagA, Swap ''P1'' tagA] st1
   \<and> comes_before ''P1'' ''P3'' (profOrder \<lparr>profOrder = [''P1'', ''P3''],
            profMap = [(''P1'', mk_prof ''P1'' [tagB, tagA]), (''P3'', mk_prof ''P3'' [tagC])]\<rparr>)
       = comes_before ''P1'' ''P3'' (profOrder st1)
   \<and> comes_before ''P1'' ''P3'' (profOrder st1)"
proof -
  let ?ts = "[Swap ''P2'' tagA, Swap ''P1'' tagA]"
  let ?R = "\<lparr>profOrder = [''P1'', ''P3''],
            profMap = [(''P1'', mk_prof ''P1'' [tagB, tagA]), (''P3'', mk_prof ''P3'' [tagC])]\<rparr>"
  note t = member_order_stable[of team1 st1 st1 api9 "''P2''" tagA "''P1''" "[tagA, tagB]"
      ?ts ?R "''P1''" "''P3''"]
  note i = t[THEN conjunct1, rule_format, OF st1_init]
  have w: "well_formed st1" using i by (rule conjunct1)
  note u = t[THEN conjunct2, THEN conjunct1, rule_format, OF w]
  have a: "map_of (profMap st1) ''P1'' \<noteq> None" by (simp add: listener_eval)
  have r: "run api9 ?ts st1 = Inr ?R" by (simp add: listener_eval)
  have s: "stays ''P1'' api9 ?ts st1" "stays ''P3'' api9 ?ts st1"
    by (simp_all add: listener_eval)
  have f: "from_set (map name team1) = [''P1'', ''P3'']" by (simp add: listener_eval)
  have c: "comes_before ''P1'' ''P3'' (profOrder st1)"
    by (simp add: comes_before_def listener_eval)
  note v = u[THEN conjunct2, THEN conjunct2, rule_format, OF r]
  show ?thesis
    by (intro conjI st1_init w i[THEN conjunct2] f u[THEN conjunct1] a
        u[THEN conjunct2, THEN conjunct1, rule_format, OF a] r v[THEN conjunct1] s
        v[THEN conjunct2, rule_format, OF s] c)
qed

section \<open>C1: a destination without a shared tag\<close>










section \<open>Individual mode\<close>

lemma snd_renderIndividualResults: "map snd (renderIndividualResults ps) = ps"
proof -
  have "map snd (map (\<lambda>(i, p). (i + 1, p)) (enumerate 0 ps)) = map snd (enumerate 0 ps)"
    by (simp add: case_prod_unfold comp_def)
  then show ?thesis by (simp add: renderIndividualResults_def)
qed

lemma fst_renderIndividualResults:
  "map fst (renderIndividualResults ps) = [1..<Suc (length ps)]"
proof (cases "ps = []")
  case True
  then show ?thesis by (simp add: renderIndividualResults_def)
next
  case False
  have "map fst (map (\<lambda>(i, p). (i + 1, p)) (enumerate 0 ps))
      = map (\<lambda>x. Suc (fst x)) (enumerate 0 ps)"
    by (simp add: case_prod_unfold comp_def)
  also have "\<dots> = map Suc (map fst (enumerate 0 ps))"
    by (simp only: map_map comp_def)
  also have "\<dots> = map Suc [0..<length ps]" by simp
  also have "\<dots> = [Suc 0..<Suc (length ps)]" by (rule map_Suc_upt)
  finally show ?thesis using False by (simp only: renderIndividualResults_def if_False One_nat_def)
qed

lemma sorted_individual_results: "sorted_wrt ranked_before (individual_results roster)"
proof -
  let ?key = "\<lambda>e. (- rank_score e, ind_name e)"
  have "sorted (map ?key (individual_results roster))"
    unfolding individual_results_def by (rule sorted_sort_key)
  then have "sorted_wrt (\<lambda>a b. ?key a \<le> ?key b) (individual_results roster)"
    by (simp add: sorted_map)
  then show ?thesis
    by (rule sorted_wrt_mono_rel[rotated]) (auto simp: ranked_before_def less_eq_prod_def)
qed

text \<open>
  C8. The list shown in individual mode is the whole roster, numbered from 1, in
  descending order of rank score, professors of equal rank in ascending lexicographic
  order of their names. The frontend keeps the order it receives; the order itself is
  that of the backend's ranking as the specification describes it.
\<close>

theorem individual_results_sorted:
  "mset (map snd (renderIndividualResults (individual_results roster))) = mset roster
   \<and> map fst (renderIndividualResults (individual_results roster)) = [1..<Suc (length roster)]
   \<and> sorted_wrt ranked_before (map snd (renderIndividualResults (individual_results roster)))"
proof -
  have "mset (individual_results roster) = mset roster" "length (individual_results roster) = length roster"
    by (simp_all add: individual_results_def)
  then show ?thesis
    by (simp add: snd_renderIndividualResults fst_renderIndividualResults
        sorted_individual_results)
qed

lemma individual_results_example: "individual_results
     [\<lparr>ind_name = ''Bo'', rank_score = 2\<rparr>, \<lparr>ind_name = ''Al'', rank_score = 2\<rparr>,
      \<lparr>ind_name = ''Cy'', rank_score = 5\<rparr>] =
     [\<lparr>ind_name = ''Cy'', rank_score = 5\<rparr>, \<lparr>ind_name = ''Al'', rank_score = 2\<rparr>,
      \<lparr>ind_name = ''Bo'', rank_score = 2\<rparr>]"
  by (simp add: individual_results_def less_eq_prod_def less_prod_def
      less_eq_char_def less_char_def)

end
